(* ===== verification/Prelude.thy ===== *)
theory Prelude
  imports Complex_Main "HOL-Library.Word"
begin

text \<open>
  Shared vocabulary of the StreamDevice model: bytes as 8-bit words, the
  zero-padded byte read that every \<open>StreamBuffer\<close> access relies on
  (the bytes behind the valid content of a buffer are zero, see theory
  \<open>Buffer\<close>), the C library's \<open>isspace\<close>, the control codes of the compiled
  protocol strings, and generic lemmas on lists that the component theories
  share.
\<close>

type_synonym byte = "8 word"

named_theorems byte_at_simps "facts that evaluate zero-padded byte reads"

section \<open>Zero-padded reads\<close>

text \<open>
  \<open>byte_at xs k\<close> is \<open>buffer[offs+k]\<close> of a \<open>StreamBuffer\<close> whose content is
  \<open>xs\<close>: inside the content it is the content byte, behind it the zero fill
  that the buffer keeps (\<open>Buffer.sb_inv\<close>). Reads of a C string past its
  length see the terminating NUL in the same way.
\<close>

definition byte_at :: "byte list \<Rightarrow> nat \<Rightarrow> byte" where
  "byte_at xs k = (if k < length xs then xs ! k else 0)"

lemma byte_at_less [byte_at_simps]: "k < length xs \<Longrightarrow> byte_at xs k = xs ! k"
  by (simp add: byte_at_def)

lemma byte_at_ge [byte_at_simps]: "length xs \<le> k \<Longrightarrow> byte_at xs k = 0"
  by (simp add: byte_at_def)

lemma byte_at_Nil [simp]: "byte_at [] k = 0"
  by (simp add: byte_at_def)

lemma byte_at_Cons_0 [simp]: "byte_at (x # xs) 0 = x"
  by (simp add: byte_at_def)

lemma byte_at_Cons_Suc [simp]: "byte_at (x # xs) (Suc k) = byte_at xs k"
  by (simp add: byte_at_def)

lemma byte_at_append_left [byte_at_simps]:
  "k < length xs \<Longrightarrow> byte_at (xs @ ys) k = byte_at xs k"
  by (simp add: byte_at_def nth_append)

lemma byte_at_append_length [simp]: "byte_at (xs @ ys) (length xs + k) = byte_at ys k"
  by (simp add: byte_at_def nth_append)

lemma byte_at_append_length_0 [simp]: "byte_at (xs @ ys) (length xs) = byte_at ys 0"
  using byte_at_append_length [of xs ys 0] by simp

lemma byte_at_nonzero_less: "byte_at xs k \<noteq> 0 \<Longrightarrow> k < length xs"
  by (auto simp: byte_at_def split: if_splits)

lemma byte_at_drop [byte_at_simps]: "byte_at (drop n xs) k = byte_at xs (n + k)"
  by (cases "n \<le> length xs") (auto simp: byte_at_def)

lemma byte_at_eq_0_iff: "0 \<notin> set xs \<Longrightarrow> byte_at xs q = 0 \<longleftrightarrow> length xs \<le> q"
  by (auto simp: byte_at_def dest: nth_mem)

lemma take_prefix_append: "m \<le> length xs \<Longrightarrow> take m (take m xs @ ys) = take m xs"
  by simp

section \<open>Characters and control codes\<close>

text \<open>C's \<open>isspace\<close> in the "C" locale: blank, \<open>\t \n \v \f \r\<close>.\<close>

definition isspace :: "byte \<Rightarrow> bool" where
  "isspace c \<longleftrightarrow> c = 32 \<or> (9 \<le> c \<and> c \<le> 13)"

lemma isspace_0 [simp]: "\<not> isspace 0"
  by (simp add: isspace_def)

text \<open>
  The control codes of compiled protocol strings (\<open>enum Codes\<close> of
  \<open>StreamProtocol.h\<close>, which is not part of the sources given here): end of
  string, the one-byte wildcard and the escape prefix of a literal byte.
\<close>

definition eos_code :: byte where "eos_code = 0"
definition skip_code :: byte where "skip_code = 1"
definition esc_code :: byte where "esc_code = 2"

lemmas code_defs = eos_code_def skip_code_def esc_code_def

section \<open>Occurrences in byte strings\<close>

text \<open>\<open>occurs_at hay needle p\<close>: \<open>needle\<close> is the substring of \<open>hay\<close> at \<open>p\<close>.\<close>

definition occurs_at :: "'a list \<Rightarrow> 'a list \<Rightarrow> nat \<Rightarrow> bool" where
  "occurs_at hay needle p \<longleftrightarrow> p + length needle \<le> length hay \<and> take (length needle) (drop p hay) = needle"

lemma occurs_at_nth:
  "occurs_at hay needle p \<longleftrightarrow>
     p + length needle \<le> length hay \<and> (\<forall>j < length needle. hay ! (p + j) = needle ! j)"
proof
  assume "occurs_at hay needle p"
  then have len: "p + length needle \<le> length hay"
    and tk: "take (length needle) (drop p hay) = needle"
    by (simp_all add: occurs_at_def)
  have "hay ! (p + j) = needle ! j" if "j < length needle" for j
  proof -
    have "take (length needle) (drop p hay) ! j = hay ! (p + j)"
      using len that by simp
    then show ?thesis using tk by simp
  qed
  with len show "p + length needle \<le> length hay \<and> (\<forall>j < length needle. hay ! (p + j) = needle ! j)"
    by blast
next
  assume "p + length needle \<le> length hay \<and> (\<forall>j < length needle. hay ! (p + j) = needle ! j)"
  then show "occurs_at hay needle p"
    by (auto simp: occurs_at_def intro!: nth_equalityI)
qed

lemma occurs_at_suffix: "occurs_at (pre @ needle) needle (length pre)"
  by (simp add: occurs_at_def)

end
