(* ===== verification/Buffer.thy ===== *)
theory Buffer
  imports Prelude
begin

text \<open>
  The growable byte buffer \<open>StreamBuffer\<close> (\<open>src/StreamDevice-2.0/src/StreamBuffer.cc\<close>).
  Its state is the storage (a list of \<open>cap\<close> bytes), the read offset \<open>offs\<close> and
  the length \<open>len\<close> of the valid content \<open>[offs, offs+len)\<close>; all three are C
  \<open>long\<close>s and kept as \<open>int\<close> so that the negative values the code can reach stay
  visible. Memory writes are \<open>mem_set\<close>/\<open>mem_copy\<close> on the storage list.
  The abstraction is \<open>contents\<close>, the valid bytes; the invariant \<open>sb_inv\<close> adds
  that every byte behind the content is zero. The substring search \<open>find\<close> is
  modelled loop by loop on zero-padded reads (\<open>buf_find\<close>), which is what the
  interpreter (theory \<open>Core\<close>) uses to look for the input terminator.
\<close>

section \<open>State\<close>

record sbuf =
  buffer :: "byte list"
  offs :: int
  len :: int
  cap :: int

datatype sb_error = Exploded | OutOfBounds

text \<open>\<open>sizeof(local)\<close>: the inline buffer of \<open>StreamBuffer.h\<close>.\<close>

definition local_size :: int where
  "local_size = 64"

definition contents :: "sbuf \<Rightarrow> byte list" where
  "contents b = take (nat (len b)) (drop (nat (offs b)) (buffer b))"

definition sb_inv :: "sbuf \<Rightarrow> bool" where
  "sb_inv b \<longleftrightarrow> 0 \<le> offs b \<and> 0 \<le> len b \<and> offs b + len b \<le> cap b \<and>
     length (buffer b) = nat (cap b) \<and>
     (\<forall>k. nat (offs b + len b) \<le> k \<and> k < length (buffer b) \<longrightarrow> buffer b ! k = 0)"

section \<open>Memory primitives\<close>

text \<open>\<open>memset(m+a, 0, n)\<close> and \<open>memcpy(m+a, src, |src|)\<close> on a storage of fixed length.\<close>

definition mem_set :: "byte list \<Rightarrow> nat \<Rightarrow> nat \<Rightarrow> byte list" where
  "mem_set m a n = map (\<lambda>i. if a \<le> i \<and> i < a + n then 0 else m ! i) [0..<length m]"

definition mem_copy :: "byte list \<Rightarrow> nat \<Rightarrow> byte list \<Rightarrow> byte list" where
  "mem_copy m a src = map (\<lambda>i. if a \<le> i \<and> i < a + length src then src ! (i - a) else m ! i) [0..<length m]"

section \<open>grow\<close>

text \<open>
  \<open>for (newcap = sizeof(local)*2; newcap <= minsize; newcap *= 2);\<close>, with the
  loop variable written as the number of doublings.
\<close>

function newcap_loop :: "int \<Rightarrow> nat \<Rightarrow> int" where
  "newcap_loop minsize k =
     (if 2 * local_size * 2 ^ k \<le> minsize then newcap_loop minsize (Suc k)
      else 2 * local_size * 2 ^ k)"
  by pat_completeness auto
termination
proof (relation "measure (\<lambda>(m, k). nat m - k)")
  fix minsize :: int and k :: nat
  assume le: "2 * local_size * 2 ^ k \<le> minsize"
  have "int k < 2 ^ k" by (metis less_exp of_nat_less_iff of_nat_numeral of_nat_power)
  moreover have "(2::int) ^ k \<le> 2 * local_size * 2 ^ k" by (simp add: local_size_def)
  ultimately have "int k < minsize" using le by linarith
  then show "((minsize, Suc k), (minsize, k)) \<in> measure (\<lambda>(m, k). nat m - k)" by simp
qed simp

definition sb_grow :: "int \<Rightarrow> sbuf \<Rightarrow> sb_error + sbuf" where
  "sb_grow minsize b =
     (if 10000 < minsize then Inl Exploded
      else if minsize < cap b then
        Inr (b\<lparr>buffer := mem_set (mem_copy (buffer b) 0
                   (take (nat (len b)) (drop (nat (offs b)) (buffer b))))
                   (nat (len b)) (nat (offs b)),
               offs := 0\<rparr>)
      else
        (let newcap = newcap_loop minsize 0
         in Inr (b\<lparr>buffer := take (nat (len b)) (drop (nat (offs b)) (buffer b)) @
                               replicate (nat newcap - nat (len b)) 0,
                    offs := 0, cap := newcap\<rparr>)))"

text \<open>\<open>check(size)\<close> of \<open>StreamBuffer.h\<close>: make room for \<open>size\<close> more bytes.\<close>

definition sb_check :: "int \<Rightarrow> sbuf \<Rightarrow> sb_error + sbuf" where
  "sb_check n b = (if cap b \<le> len b + offs b + n then sb_grow (len b + n) b else Inr b)"

section \<open>append\<close>

definition sb_append :: "byte list \<Rightarrow> int \<Rightarrow> sbuf \<Rightarrow> sb_error + sbuf" where
  "sb_append s n b =
     (if n \<le> 0 then
        (if offs b + len b + n < 0 then Inl OutOfBounds
         else Inr (b\<lparr>buffer := mem_set (buffer b) (nat (offs b + len b + n)) (nat (- n)),
                     len := len b + n\<rparr>))
      else
        (case sb_check n b of
           Inl e \<Rightarrow> Inl e
         | Inr b1 \<Rightarrow> Inr (b1\<lparr>buffer := mem_copy (buffer b1) (nat (offs b1 + len b1)) (take (nat n) s),
                             len := len b1 + n\<rparr>)))"

section \<open>find\<close>

text \<open>
  \<open>memchr(p, c, b+len-p)\<close>: the first position from \<open>p\<close> below the bound that
  holds \<open>c\<close>.
\<close>

function memchr_from :: "(nat \<Rightarrow> byte) \<Rightarrow> nat \<Rightarrow> byte \<Rightarrow> nat \<Rightarrow> nat option" where
  "memchr_from h n c p =
     (if p < n then (if h p = c then Some p else memchr_from h n c (Suc p)) else None)"
  by pat_completeness auto
termination
  by (relation "measure (\<lambda>(h, n, c, p). n - p)") auto

text \<open>
  The inner loop \<open>for (i=1; p[i] == s[i]; i++) { if (i >= size) return p-b; }\<close>:
  \<open>None\<close> is the \<open>return\<close>, \<open>Some i\<close> the index at which the comparison failed.
\<close>

function match_len :: "(nat \<Rightarrow> byte) \<Rightarrow> (nat \<Rightarrow> byte) \<Rightarrow> nat \<Rightarrow> nat \<Rightarrow> nat \<Rightarrow> nat option" where
  "match_len h s sz p i =
     (if h (p + i) = s i then (if sz \<le> i then None else match_len h s sz p (Suc i))
      else Some i)"
  by pat_completeness auto
termination
  by (relation "measure (\<lambda>(h, s, sz, p, i). Suc sz - i)") auto

text \<open>The outer loop: search the first byte, compare, then \<open>p += i\<close>.\<close>

function find_loop :: "(nat \<Rightarrow> byte) \<Rightarrow> nat \<Rightarrow> (nat \<Rightarrow> byte) \<Rightarrow> nat \<Rightarrow> nat \<Rightarrow> int" where
  "find_loop h n s sz p =
     (case memchr_from h n (s 0) p of
        None \<Rightarrow> -1
      | Some k \<Rightarrow>
          (case match_len h s sz k 1 of
             None \<Rightarrow> int k
           | Some i \<Rightarrow> find_loop h n s sz (k + i)))"
  by pat_completeness auto
termination
proof (relation "measure (\<lambda>(h, n, s, sz, p). n - p)")
  fix h n s sz p k i
  assume mc: "memchr_from h n (s 0) p = Some k"
    and ml: "match_len h s sz k 1 = Some i"
  have bounds: "p \<le> k \<and> k < n" if "memchr_from h n c p = Some k" for c
    using that
  proof (induction h n c p rule: memchr_from.induct)
    case (1 h n c p)
    then show ?case
      by (cases "p < n"; cases "h p = c") (auto simp: memchr_from.simps [of h n c p])
  qed
  have step: "j \<le> i" if "match_len h s sz k j = Some i" for j
    using that
  proof (induction h s sz k j rule: match_len.induct)
    case (1 h s sz p j)
    then show ?case
      by (cases "h (p + j) = s j"; cases "sz \<le> j") (auto simp: match_len.simps [of h s sz p j])
  qed
  from bounds [OF mc] step [OF ml]
  show "((h, n, s, sz, k + i), (h, n, s, sz, p)) \<in> measure (\<lambda>(h, n, s, sz, p). n - p)"
    by (simp, linarith)
qed simp

text \<open>
  \<open>StreamBuffer::find(m, size, start)\<close> on the buffer content \<open>hay\<close> and a
  needle \<open>needle\<close> held in a buffer itself (both zero-padded): a negative
  \<open>start\<close> is taken from the end, an empty needle is found at \<open>start\<close>; the
  search itself starts at the buffer start \<open>b\<close> whatever \<open>start\<close> is.
\<close>

definition buf_find :: "byte list \<Rightarrow> byte list \<Rightarrow> int \<Rightarrow> int" where
  "buf_find hay needle start =
     (let start' = (if start < 0 then max 0 (start + int (length hay)) else start)
      in if needle = [] then start'
         else find_loop (byte_at hay) (length hay) (byte_at needle) (length needle) 0)"

text \<open>\<open>suffix_at h n s sz q\<close>: the \<open>sz\<close> bytes of \<open>s\<close> sit at \<open>q\<close> and end the content.\<close>

definition suffix_at :: "(nat \<Rightarrow> byte) \<Rightarrow> nat \<Rightarrow> (nat \<Rightarrow> byte) \<Rightarrow> nat \<Rightarrow> nat \<Rightarrow> bool" where
  "suffix_at h n s sz q \<longleftrightarrow> q + sz = n \<and> (\<forall>t < sz. h (q + t) = s t)"

section \<open>Lemmas on find\<close>

declare memchr_from.simps [simp del] match_len.simps [simp del] find_loop.simps [simp del]

lemma memchr_from_Some:
  "memchr_from h n c p = Some k \<Longrightarrow> p \<le> k \<and> k < n \<and> h k = c \<and> (\<forall>q. p \<le> q \<and> q < k \<longrightarrow> h q \<noteq> c)"
proof (induction h n c p rule: memchr_from.induct)
  case (1 h n c p)
  show ?case
  proof (cases "p < n \<and> h p \<noteq> c")
    case True
    with "1.prems" have "memchr_from h n c (Suc p) = Some k"
      by (simp add: memchr_from.simps [of h n c p])
    with True "1.IH" have "Suc p \<le> k \<and> k < n \<and> h k = c \<and> (\<forall>q. Suc p \<le> q \<and> q < k \<longrightarrow> h q \<noteq> c)"
      by blast
    with True show ?thesis
      by (metis Suc_leD Suc_leI le_neq_implies_less)
  next
    case False
    with "1.prems" show ?thesis
      by (auto simp: memchr_from.simps [of h n c p] split: if_splits)
  qed
qed

lemma memchr_from_None:
  "memchr_from h n c p = None \<Longrightarrow> p \<le> q \<Longrightarrow> q < n \<Longrightarrow> h q \<noteq> c"
proof (induction h n c p rule: memchr_from.induct)
  case (1 h n c p)
  show ?case
  proof (cases "p = q")
    case True
    have "(if p < n then (if h p = c then Some p else memchr_from h n c (Suc p)) else None) = None"
      using "1.prems"(1) by (simp only: memchr_from.simps [of h n c p])
    with True "1.prems"(3) show ?thesis
      by (auto split: if_splits)
  next
    case False
    with "1.prems" "1.IH" show ?thesis
      by (auto simp: memchr_from.simps [of h n c p] split: if_splits)
  qed
qed

lemma match_len_None:
  "match_len h s sz p i = None \<Longrightarrow> i \<le> t \<Longrightarrow> t \<le> sz \<Longrightarrow> h (p + t) = s t"
proof (induction h s sz p i rule: match_len.induct)
  case (1 h s sz p i)
  then show ?case
    by (cases "t = i") (auto simp: match_len.simps [of h s sz p i] split: if_splits)
qed

lemma match_len_Some:
  "match_len h s sz p i = Some m \<Longrightarrow>
     i \<le> m \<and> h (p + m) \<noteq> s m \<and> (\<forall>t. i \<le> t \<and> t < m \<longrightarrow> h (p + t) = s t) \<and> (i \<le> sz \<longrightarrow> m \<le> sz)"
proof (induction h s sz p i rule: match_len.induct)
  case (1 h s sz p i)
  show ?case
  proof (cases "h (p + i) = s i")
    case True
    with "1.prems" have "\<not> sz \<le> i" and "match_len h s sz p (Suc i) = Some m"
      by (auto simp: match_len.simps [of h s sz p i] split: if_splits)
    with True "1.IH" have "Suc i \<le> m \<and> h (p + m) \<noteq> s m \<and> (\<forall>t. Suc i \<le> t \<and> t < m \<longrightarrow> h (p + t) = s t) \<and> (Suc i \<le> sz \<longrightarrow> m \<le> sz)"
      by blast
    with True \<open>\<not> sz \<le> i\<close> show ?thesis
      by (metis Suc_leD Suc_leI le_neq_implies_less)
  next
    case False
    with "1.prems" show ?thesis
      by (auto simp: match_len.simps [of h s sz p i])
  qed
qed

lemma suffix_at_unique: "suffix_at h n s sz q \<Longrightarrow> q = n - sz"
  unfolding suffix_at_def by arith

lemma find_loop_suffix:
  assumes hz: "\<And>q. h q = 0 \<longleftrightarrow> n \<le> q"
    and sz0: "\<And>t. s t = 0 \<longleftrightarrow> sz \<le> t"
    and pos: "0 < sz"
    and uniq: "\<And>j. 0 < j \<Longrightarrow> j < sz \<Longrightarrow> s j \<noteq> s 0"
  shows "find_loop h n s sz p = (if \<exists>q. suffix_at h n s sz q \<and> p \<le> q then int (n - sz) else -1)"
proof (induction "n - p" arbitrary: p rule: less_induct)
  case less
  let ?Q = "\<lambda>p. \<exists>q. suffix_at h n s sz q \<and> p \<le> q"
  have q_first: "h q = s 0" and q_lt: "q < n" if "suffix_at h n s sz q" for q
    using that pos by (auto simp: suffix_at_def)
  show ?case
  proof (cases "memchr_from h n (s 0) p")
    case None
    have "\<not> ?Q p"
      using memchr_from_None [OF None] q_first q_lt by blast
    with None show ?thesis by (simp add: find_loop.simps [of h n s sz p])
  next
    case (Some k)
    note mcs = Some
    note mc = memchr_from_Some [OF Some]
    show ?thesis
    proof (cases "match_len h s sz k 1")
      case None
      have m: "h (k + t) = s t" if "t \<le> sz" for t
        using match_len_None [OF None, of t] that mc by (cases "t = 0") auto
      have "h (k + sz) = 0" using m [of sz] sz0 by simp
      then have "n \<le> k + sz" using hz by simp
      moreover have "h (k + (sz - 1)) \<noteq> 0" using m [of "sz - 1"] sz0 pos by simp
      then have "k + (sz - 1) < n" using hz by (simp add: not_le)
      ultimately have "suffix_at h n s sz k"
        using m pos by (simp add: suffix_at_def)
      then have "?Q p" and "k = n - sz" using mc suffix_at_unique by blast+
      with mcs None show ?thesis by (simp add: find_loop.simps [of h n s sz p])
    next
      case (Some i)
      note mls = Some
      note ml = match_len_Some [OF Some]
      have i1: "1 \<le> i" and ile: "i \<le> sz" using ml pos by auto
      have matched: "h (k + t) = s t" if "t < i" for t
        using ml mc that by (cases "t = 0") auto
      have "?Q (k + i) \<longleftrightarrow> ?Q p"
      proof
        assume "?Q (k + i)" then show "?Q p" using mc by (meson add_leD1 order_trans)
      next
        assume "?Q p"
        then obtain q where sq: "suffix_at h n s sz q" and pq: "p \<le> q" by blast
        have "\<not> q < k" using mc q_first [OF sq] pq by blast
        moreover have "q \<noteq> k"
        proof
          assume "q = k"
          with sq have "h (k + i) = s i" if "i < sz"
            using that by (simp add: suffix_at_def)
          moreover have "h (k + sz) = s sz"
            using \<open>q = k\<close> sq hz [of "k + sz"] sz0 [of sz] by (simp add: suffix_at_def)
          ultimately show False using ml ile by (cases "i = sz") auto
        qed
        moreover have "\<not> (k < q \<and> q < k + i)"
        proof
          assume kq: "k < q \<and> q < k + i"
          then have "q - k < i" by arith
          then have "h q = s (q - k)" using matched [of "q - k"] kq by simp
          moreover have "0 < q - k" "q - k < sz" using kq ile by arith+
          then have "s (q - k) \<noteq> s 0" by (rule uniq)
          ultimately show False using q_first [OF sq] by simp
        qed
        ultimately show "?Q (k + i)" using sq by (meson linorder_neqE_nat not_le)
      qed
      moreover have "n - (k + i) < n - p" using mc i1 by linarith
      ultimately show ?thesis
        using less [of "k + i"] mcs mls by (simp add: find_loop.simps [of h n s sz p])
    qed
  qed
qed

lemma suffix_at_byte_at:
  "(\<exists>q. suffix_at (byte_at hay) (length hay) (byte_at needle) (length needle) q) \<longleftrightarrow>
   (\<exists>pre. hay = pre @ needle)"
proof
  assume "\<exists>q. suffix_at (byte_at hay) (length hay) (byte_at needle) (length needle) q"
  then obtain q where len: "q + length needle = length hay"
    and eq: "\<forall>t < length needle. byte_at hay (q + t) = byte_at needle t"
    by (auto simp: suffix_at_def)
  have "drop q hay = needle"
  proof (rule nth_equalityI)
    show "length (drop q hay) = length needle" using len by simp
  next
    fix t assume "t < length (drop q hay)"
    then have "t < length needle" using len by simp
    then show "drop q hay ! t = needle ! t"
      using eq len by (auto simp: byte_at_def)
  qed
  then have "hay = take q hay @ needle" by (metis append_take_drop_id)
  then show "\<exists>pre. hay = pre @ needle" by blast
next
  assume "\<exists>pre. hay = pre @ needle"
  then obtain pre where "hay = pre @ needle" by blast
  then have "suffix_at (byte_at hay) (length hay) (byte_at needle) (length needle) (length pre)"
    by (simp add: suffix_at_def byte_at_def nth_append)
  then show "\<exists>q. suffix_at (byte_at hay) (length hay) (byte_at needle) (length needle) q"
    by blast
qed

lemma buf_find_suffix:
  assumes nzh: "0 \<notin> set hay" and nzn: "0 \<notin> set needle" and ne: "needle \<noteq> []"
    and uniq: "\<forall>j. 0 < j \<and> j < length needle \<longrightarrow> needle ! j \<noteq> needle ! 0"
  shows "buf_find hay needle 0 =
           (if \<exists>pre. hay = pre @ needle then int (length hay - length needle) else -1)"
proof -
  have "find_loop (byte_at hay) (length hay) (byte_at needle) (length needle) 0 =
          (if \<exists>q. suffix_at (byte_at hay) (length hay) (byte_at needle) (length needle) q \<and> 0 \<le> q
           then int (length hay - length needle) else -1)"
  proof (rule find_loop_suffix)
    show "\<And>q. byte_at hay q = 0 \<longleftrightarrow> length hay \<le> q" using nzh by (rule byte_at_eq_0_iff)
    show "\<And>t. byte_at needle t = 0 \<longleftrightarrow> length needle \<le> t" using nzn by (rule byte_at_eq_0_iff)
    show "0 < length needle" using ne by simp
    show "\<And>j. 0 < j \<Longrightarrow> j < length needle \<Longrightarrow> byte_at needle j \<noteq> byte_at needle 0"
      using uniq ne by (simp add: byte_at_def)
  qed
  then show ?thesis using ne suffix_at_byte_at [of hay needle] by (simp add: buf_find_def)
qed

text \<open>
  C2: For a NUL-free buffer and a non-empty NUL-free terminator whose
  first byte does not reappear in it (CR LF, LF, ...), \<open>find\<close> from the
  start returns the terminator's position exactly when the buffer ends with
  it, and -1 otherwise.
\<close>

theorem buf_find_terminator:
  assumes "0 \<notin> set hay" and "0 \<notin> set needle" and "needle \<noteq> []"
    and "\<forall>j. 0 < j \<and> j < length needle \<longrightarrow> needle ! j \<noteq> needle ! 0"
  shows "buf_find hay needle 0 =
           (if \<exists>pre. hay = pre @ needle then int (length hay - length needle) else -1)"
  using assms by (rule buf_find_suffix)

theorem buf_find_terminator_witness:
  "buf_find [65, 66, 13, 10] [13, 10] 0 = 2"
proof -
  have "[65, 66, 13, 10] = [65, 66] @ [13, 10 :: byte]" by simp
  then have "\<exists>pre. [65, 66, 13, 10] = pre @ [13, 10 :: byte]" by blast
  moreover have "\<forall>j. 0 < j \<and> j < length [13, 10 :: byte] \<longrightarrow> [13, 10 :: byte] ! j \<noteq> [13, 10 :: byte] ! 0"
    by (auto simp: less_Suc_eq)
  ultimately show ?thesis
    using buf_find_terminator [of "[65, 66, 13, 10]" "[13, 10]"] by simp
qed

text \<open>
  \<open>find\<close> does not find a terminator that has more input behind it.
  The search only succeeds where the needle is followed by the byte that
  follows it in the needle's own storage (the NUL behind its content): the
  inner loop compares one byte more than the needle has. A terminator with
  more input behind it is therefore not found, and the skip \<open>p += i\<close> can
  jump over an occurrence whose first byte reappears inside the needle.
\<close>

theorem buf_find_misses_inner_terminator: "buf_find [65, 13, 10, 66] [13, 10] 0 = -1"
  by code_simp

text \<open>
  \<open>find\<close> misses an occurrence that overlaps a partial match: in
  \<open>aaab\<close> the needle \<open>aab\<close> starts at 1, but after the partial match at 0
  the loop continues behind it and returns -1.
\<close>

theorem buf_find_skips_overlap: "buf_find [97, 97, 97, 98] [97, 97, 98] 0 = -1"
  by code_simp


section \<open>append and grow refine list append\<close>

declare newcap_loop.simps [simp del]

lemma length_mem_set [simp]: "length (mem_set m a n) = length m"
  by (simp add: mem_set_def)

lemma length_mem_copy [simp]: "length (mem_copy m a src) = length m"
  by (simp add: mem_copy_def)

lemma nth_mem_set: "i < length m \<Longrightarrow> mem_set m a n ! i = (if a \<le> i \<and> i < a + n then 0 else m ! i)"
  by (simp add: mem_set_def)

lemma nth_mem_copy:
  "i < length m \<Longrightarrow> mem_copy m a src ! i = (if a \<le> i \<and> i < a + length src then src ! (i - a) else m ! i)"
  by (simp add: mem_copy_def)

lemma sb_inv_nat: "sb_inv b \<Longrightarrow> nat (offs b) + nat (len b) \<le> length (buffer b)"
  unfolding sb_inv_def by (simp add: nat_add_distrib [symmetric] nat_mono)

lemma nth_contents: "sb_inv b \<Longrightarrow> i < nat (len b) \<Longrightarrow> contents b ! i = buffer b ! (nat (offs b) + i)"
  using sb_inv_nat [of b] by (simp add: contents_def)

lemma length_contents: "sb_inv b \<Longrightarrow> length (contents b) = nat (len b)"
  using sb_inv_nat [of b] by (simp add: contents_def)

lemma newcap_loop_pow:
  "\<exists>j\<ge>k. newcap_loop m k = 2 * local_size * 2 ^ j \<and> m < 2 * local_size * 2 ^ j \<and>
          (j = k \<or> 2 * local_size * 2 ^ (j - 1) \<le> m)"
proof (induction m k rule: newcap_loop.induct)
  case (1 m k)
  show ?case
  proof (cases "2 * local_size * 2 ^ k \<le> m")
    case True
    then obtain j where j: "Suc k \<le> j" "newcap_loop m (Suc k) = 2 * local_size * 2 ^ j"
      "m < 2 * local_size * 2 ^ j" "j = Suc k \<or> 2 * local_size * 2 ^ (j - 1) \<le> m"
      using 1 by blast
    have "j = Suc k \<or> 2 * local_size * 2 ^ (j - 1) \<le> m" using j(4) .
    then have "2 * local_size * 2 ^ (j - 1) \<le> m" using True by auto
    then show ?thesis using j True by (intro exI [of _ j]) (simp add: newcap_loop.simps [of m k])
  next
    case False
    then show ?thesis by (intro exI [of _ k]) (simp add: newcap_loop.simps [of m k])
  qed
qed

lemma newcap_gt: "minsize < newcap_loop minsize 0"
  using newcap_loop_pow [of 0 minsize] by force

lemma sb_grow_ok:
  assumes inv: "sb_inv b" and le: "minsize \<le> 10000" and ml: "len b \<le> minsize"
  shows "\<exists>b'. sb_grow minsize b = Inr b' \<and> sb_inv b' \<and> contents b' = contents b \<and>
              offs b' = 0 \<and> len b' = len b \<and> minsize < cap b'"
proof -
  define ofs ln where "ofs = nat (offs b)" and "ln = nat (len b)"
  have nat_bound: "ofs + ln \<le> length (buffer b)" using sb_inv_nat [OF inv] by (simp add: ofs_def ln_def)
  have tail: "buffer b ! k = 0" if "ofs + ln \<le> k" "k < length (buffer b)" for k
    using inv that by (simp add: sb_inv_def ofs_def ln_def nat_add_distrib)
  have lc: "length (contents b) = ln" using length_contents [OF inv] by (simp add: ln_def)
  have cn: "contents b ! i = buffer b ! (ofs + i)" if "i < ln" for i
    using nth_contents [OF inv] that by (simp add: ofs_def ln_def)
  have c_def: "take (nat (len b)) (drop (nat (offs b)) (buffer b)) = contents b"
    by (simp add: contents_def)
  show ?thesis
  proof (cases "minsize < cap b")
    case True
    define m' where "m' = mem_set (mem_copy (buffer b) 0 (contents b)) ln ofs"
    have len': "length m' = length (buffer b)" by (simp add: m'_def)
    have m'_nth: "m' ! k = (if ln \<le> k \<and> k < ln + ofs then 0 else if k < ln then contents b ! k else buffer b ! k)"
      if "k < length (buffer b)" for k
      using that lc by (simp add: m'_def nth_mem_set nth_mem_copy)
    let ?b' = "b\<lparr>buffer := m', offs := 0\<rparr>"
    have "contents ?b' = contents b"
    proof (rule nth_equalityI)
      show "length (contents ?b') = length (contents b)"
        using nat_bound lc len' by (simp add: contents_def ln_def)
    next
      fix i assume "i < length (contents ?b')"
      then have "i < ln" "i < length (buffer b)" using nat_bound len' by (simp_all add: contents_def ln_def)
      then show "contents ?b' ! i = contents b ! i" by (simp add: contents_def m'_nth ln_def)
    qed
    moreover have "sb_inv ?b'"
      unfolding sb_inv_def
    proof (intro conjI allI impI)
      fix k assume k: "nat (offs ?b' + len ?b') \<le> k \<and> k < length (buffer ?b')"
      then have "ln \<le> k" "k < length (buffer b)" using len' inv by (simp_all add: ln_def sb_inv_def)
      then show "buffer ?b' ! k = 0" using tail [of k] by (simp add: m'_nth)
    qed (use inv len' in \<open>simp_all add: sb_inv_def\<close>)
    ultimately show ?thesis using True le by (simp add: sb_grow_def c_def m'_def ofs_def ln_def)
  next
    case False
    define nc where "nc = newcap_loop minsize 0"
    have gt: "minsize < nc" using newcap_gt by (simp add: nc_def)
    define m' where "m' = contents b @ replicate (nat nc - ln) 0"
    have len': "length m' = nat nc" using lc gt ml by (simp add: m'_def ln_def)
    let ?b' = "b\<lparr>buffer := m', offs := 0, cap := nc\<rparr>"
    have "contents ?b' = contents b"
      using lc by (simp add: contents_def m'_def ln_def)
    moreover have "sb_inv ?b'"
      unfolding sb_inv_def
    proof (intro conjI allI impI)
      fix k assume k: "nat (offs ?b' + len ?b') \<le> k \<and> k < length (buffer ?b')"
      then have "ln \<le> k" by (simp add: ln_def)
      moreover have "k - ln < nat nc - ln" using k len' by (simp add: ln_def) linarith
      ultimately show "buffer ?b' ! k = 0" using k lc by (simp add: m'_def nth_append)
    qed (use inv len' gt ml in \<open>simp_all add: sb_inv_def\<close>)
    ultimately show ?thesis using False le gt by (simp add: sb_grow_def c_def m'_def nc_def ln_def Let_def)
  qed
qed

lemma mem_set_0 [simp]: "mem_set m a 0 = m"
  by (rule nth_equalityI) (auto simp: mem_set_def)

lemma sb_check_ok:
  assumes inv: "sb_inv b" and pos: "0 < n" and le: "len b + n \<le> 10000"
  shows "\<exists>b1. sb_check n b = Inr b1 \<and> sb_inv b1 \<and> contents b1 = contents b \<and>
               len b1 = len b \<and> offs b1 + len b1 + n < cap b1"
proof (cases "cap b \<le> len b + offs b + n")
  case True
  obtain b1 where "sb_grow (len b + n) b = Inr b1" "sb_inv b1" "contents b1 = contents b"
    "offs b1 = 0" "len b1 = len b" "len b + n < cap b1"
    using sb_grow_ok [OF inv le] pos by auto
  then show ?thesis using True by (simp add: sb_check_def)
qed (simp add: sb_check_def inv)

lemma sb_copy_ok:
  assumes inv: "sb_inv b" and room: "offs b + len b + int (length s) \<le> cap b"
  shows "sb_inv (b\<lparr>buffer := mem_copy (buffer b) (nat (offs b + len b)) s, len := len b + int (length s)\<rparr>) \<and>
         contents (b\<lparr>buffer := mem_copy (buffer b) (nat (offs b + len b)) s, len := len b + int (length s)\<rparr>)
           = contents b @ s"
    (is "sb_inv ?b' \<and> contents ?b' = _")
proof
  have o: "0 \<le> offs b" and l: "0 \<le> len b" and lb: "length (buffer b) = nat (cap b)"
    using inv by (simp_all add: sb_inv_def)
  have nb: "nat (offs b) + nat (len b) + length s \<le> length (buffer b)"
    using o l room lb by linarith
  show "sb_inv ?b'"
    unfolding sb_inv_def
  proof (intro conjI allI impI)
    fix k assume k: "nat (offs ?b' + len ?b') \<le> k \<and> k < length (buffer ?b')"
    then have "nat (offs b) + nat (len b) + length s \<le> k" "k < length (buffer b)"
      using o l by simp_all linarith
    then show "buffer ?b' ! k = 0"
      using inv o l by (simp add: nth_mem_copy sb_inv_def nat_add_distrib)
  qed (use inv room in \<open>simp_all add: sb_inv_def\<close>)
  show "contents ?b' = contents b @ s"
  proof (rule nth_equalityI)
    show "length (contents ?b') = length (contents b @ s)"
      using nb l o length_contents [OF inv] by (simp add: contents_def nat_add_distrib)
  next
    fix i assume "i < length (contents ?b')"
    then have i: "i < nat (len b) + length s" using nb l by (simp add: contents_def nat_add_distrib)
    have "contents ?b' ! i = mem_copy (buffer b) (nat (offs b) + nat (len b)) s ! (nat (offs b) + i)"
      using i nb o l by (simp add: contents_def nat_add_distrib)
    also have "\<dots> = (contents b @ s) ! i"
      using i nb nth_contents [OF inv] length_contents [OF inv]
      by (simp add: nth_mem_copy nth_append)
    finally show "contents ?b' ! i = (contents b @ s) ! i" .
  qed
qed

text \<open>
  C4: \<open>append(s, |s|)\<close> on a well-formed buffer whose content stays within
  the 10000-byte limit refines list append: it succeeds, keeps the invariant
  (the zero tail included), and the new content is the old content followed
  by \<open>s\<close>, whether the bytes fit, are moved to the front or need a new buffer.
\<close>

theorem sb_append_contents:
  assumes inv: "sb_inv b" and le: "len b + int (length s) \<le> 10000"
  shows "\<exists>b'. sb_append s (int (length s)) b = Inr b' \<and> sb_inv b' \<and> contents b' = contents b @ s"
proof (cases "s = []")
  case True
  then show ?thesis using inv by (simp add: sb_append_def sb_inv_def)
next
  case False
  then have pos: "0 < int (length s)" by simp
  obtain b1 where b1: "sb_check (int (length s)) b = Inr b1" "sb_inv b1" "contents b1 = contents b"
      "len b1 = len b" "offs b1 + len b1 + int (length s) < cap b1"
    using sb_check_ok [OF inv pos le] by blast
  then show ?thesis
    using pos sb_copy_ok [OF b1(2), of s] by (simp add: sb_append_def)
qed


text \<open>
  \<open>append\<close> with a negative size \<open>-k\<close>, \<open>k \<le> len\<close>, truncates: the
  content loses its last \<open>k\<close> bytes and the freed bytes are zeroed, so the
  invariant holds.
\<close>

theorem sb_append_truncate:
  assumes inv: "sb_inv b" and k0: "0 \<le> k" and kl: "k \<le> len b"
  shows "\<exists>b'. sb_append s (- k) b = Inr b' \<and> sb_inv b' \<and> contents b' = take (nat (len b - k)) (contents b)"
proof -
  have o: "0 \<le> offs b" and l: "0 \<le> len b" and lb: "length (buffer b) = nat (cap b)"
    and oc: "offs b + len b \<le> cap b"
    using inv by (simp_all add: sb_inv_def)
  define b' where "b' = b\<lparr>buffer := mem_set (buffer b) (nat (offs b + len b - k)) (nat k), len := len b - k\<rparr>"
  have app: "sb_append s (- k) b = Inr b'"
    using k0 kl o by (simp add: sb_append_def b'_def)
  have "sb_inv b'"
    unfolding sb_inv_def
  proof (intro conjI allI impI)
    fix j assume j: "nat (offs b' + len b') \<le> j \<and> j < length (buffer b')"
    show "buffer b' ! j = 0"
    proof (cases "j < nat (offs b + len b)")
      case True
      then show ?thesis using j k0 by (simp add: b'_def nth_mem_set) linarith
    next
      case False
      then show ?thesis using j inv by (simp add: b'_def nth_mem_set sb_inv_def)
    qed
  qed (use o k0 kl oc lb in \<open>simp_all add: b'_def\<close>)
  moreover have "contents b' = take (nat (len b - k)) (contents b)"
  proof (rule nth_equalityI)
    show "length (contents b') = length (take (nat (len b - k)) (contents b))"
      using o l k0 kl oc lb length_contents [OF inv] by (simp add: b'_def contents_def)
  next
    fix i assume "i < length (contents b')"
    then have i: "i < nat (len b - k)" using o l k0 kl oc lb by (simp add: b'_def contents_def)
    then have "nat (offs b) + i < length (buffer b)" "i < nat (len b)" using o kl oc lb k0 by arith+
    then show "contents b' ! i = take (nat (len b - k)) (contents b) ! i"
      using i o k0 nth_contents [OF inv] by (simp add: b'_def contents_def nth_mem_set) linarith
  qed
  ultimately show ?thesis using app by blast
qed

text \<open>
  C13: Truncating by more than the content (\<open>len < k \<le> offs + len\<close>) is not
  clamped: \<open>append\<close> zeroes bytes before the content and leaves a negative
  length, which breaks the buffer invariant.
\<close>

theorem sb_append_overtruncate:
  assumes inv: "sb_inv b" and lk: "len b < k" and ko: "k \<le> offs b + len b"
  shows "\<exists>b'. sb_append s (- k) b = Inr b' \<and> len b' < 0 \<and> \<not> sb_inv b'"
  using assms by (simp add: sb_append_def sb_inv_def)

text \<open>
  C12: When \<open>grow(m)\<close> has to reallocate, the new capacity is
  \<open>sizeof(local)*2\<close> doubled until it exceeds \<open>m\<close>: a power-of-two multiple of
  128 that is greater than \<open>m\<close> and at most \<open>2m\<close> unless it is 128.
\<close>

theorem sb_grow_capacity:
  assumes inv: "sb_inv b" and lm: "len b \<le> m" and m: "m \<le> 10000" and cm: "cap b \<le> m"
  shows "\<exists>b' j. sb_grow m b = Inr b' \<and> cap b' = 128 * 2 ^ j \<and> m < cap b' \<and> (j = 0 \<or> cap b' \<le> 2 * m)"
proof -
  obtain j where j: "newcap_loop m 0 = 2 * local_size * 2 ^ j" "m < 2 * local_size * 2 ^ j"
      "j = 0 \<or> 2 * local_size * 2 ^ (j - 1) \<le> m"
    using newcap_loop_pow [of 0 m] by auto
  have "j = 0 \<or> 128 * 2 ^ j \<le> 2 * m"
  proof (cases j)
    case (Suc i)
    then show ?thesis using j(3) by (simp add: local_size_def)
  qed simp
  then show ?thesis using j m cm by (auto simp: sb_grow_def Let_def local_size_def)
qed

end
