(* ===== verification/Core.thy ===== *)
theory Core
  imports Buffer
begin

text \<open>
  The protocol interpreter \<open>StreamCore\<close> (\<open>src/StreamDevice-2.0/src/StreamCore.cc\<close>).
  A session is the record \<open>core\<close>: the flag set (\<open>enum Flags\<close>), the command body
  being run and the command index into it, the input buffer (its content, by the
  abstraction of theory \<open>Buffer\<close>), the current input line and the output
  line. Calls into the collaborators are effects appended to \<open>effects\<close> in
  order (bus lock, write, read, event, unlock, set EOS, timer, shell);
  \<open>protocolFinishHook\<close> calls are appended to \<open>results\<close>. The collaborators
  themselves (format converters, record bridge, bus) are the parameters in
  \<open>env\<close>. Compiled command strings are decoded: a body is a list of
  \<open>command\<close>s, a template a list of \<open>token\<close>s; reading past the end of a body
  reads the zero byte \<open>end\<close>.

  \<open>evalCommand\<close>, \<open>evalIn\<close>, \<open>readCallback\<close> and \<open>finishProtocol\<close> call each
  other synchronously (a finished command starts the next one, a timeout starts
  its handler, buffered input is parsed at once). They are one recursion with a
  fuel argument: \<open>None\<close> means the fuel ran out.
\<close>

section \<open>Formats (StreamFormat.h)\<close>

datatype format_flag = left_flag | sign_flag | space_flag | alt_flag | zero_flag | skip_flag

datatype format_type = long_format | enum_format | double_format | string_format | pseudo_format

record stream_format =
  conv :: char
  ftype :: format_type
  fflags :: "format_flag set"
  prec :: int
  width :: nat
  info :: "byte list"

section \<open>Commands, results, flags\<close>

datatype token = Lit byte | SkipTok | Format stream_format | FormatField string stream_format

datatype command =
    CmdEnd
  | CmdIn "token list"
  | CmdOut "token list"
  | CmdWait nat
  | CmdEvent nat nat
  | CmdExec "token list"
  | CmdIllegal byte

datatype protocol_result =
  Success | LockTimeout | WriteTimeout | ReplyTimeout | ReadTimeout | ScanError | FormatError | Abort | Fault

datatype io_status = ioSuccess | ioTimeout | ioNoReply | ioEnd | ioFault

datatype start_mode = StartNormal | StartInit | StartAsync

datatype flag =
  IgnoreExtraInput | InitRun | AsyncMode | GotValue | BusOwner | Separator | ScanTried
  | AcceptInput | AcceptEvent | LockPending | WritePending | WaitPending | ValueReceived

definition BusPending :: "flag set" where
  "BusPending = {LockPending, WritePending, WaitPending}"

definition ClearOnStart :: "flag set" where
  "ClearOnStart = {InitRun, AsyncMode, GotValue, Separator, ScanTried, AcceptInput, AcceptEvent,
                   LockPending, WritePending, WaitPending}"

datatype "value" = LongVal int | DoubleVal real | StringVal "byte list"

datatype effect =
    BusLockRequest nat
  | BusWriteRequest "byte list" nat
  | BusReadRequest nat nat int bool
  | BusAcceptEvent nat nat
  | BusUnlock
  | BusSetEos "byte list"
  | TimerStart nat
  | ShellExecute "byte list"

section \<open>Protocol, collaborators and session\<close>

record protocol =
  lockTimeout :: nat
  readTimeout :: nat
  replyTimeout :: nat
  writeTimeout :: nat
  pollPeriod :: nat
  maxInput :: nat
  inTerminator :: "byte list"
  outTerminator :: "byte list"
  separator :: "byte list"
  commands :: "command list"
  onInit :: "command list"
  onWriteTimeout :: "command list"
  onReplyTimeout :: "command list"
  onReadTimeout :: "command list"
  onMismatch :: "command list"

text \<open>
  The environment of a session: the converters, the bus, and the EPICS
  database as the record bridge sees it. \<open>field_value\<close> is the
  \<open>dbGet\<close> of \<open>Stream::formatValue\<close> on a \<open>%(field)\<close> address for the
  format's type (the \<open>TIME\<close> field reads as one double, a CHAR array under a
  string format as one string; \<open>None\<close> when \<open>dbGet\<close> fails);
  \<open>field_elems\<close>, \<open>field_is_char\<close> and \<open>field_is_time\<close> are the field's
  \<open>no_elements\<close>, CHAR/UCHAR type and name \<open>TIME\<close>; \<open>field_put\<close> is the
  status of \<open>dbPut\<close>/\<open>dbPutField\<close>; \<open>record_accepts\<close> is whether the
  record's \<open>readData\<close> takes a scanned value.
\<close>

record env =
  proto :: protocol
  conv_print :: "stream_format \<Rightarrow> value \<Rightarrow> byte list option"
  conv_scan :: "stream_format \<Rightarrow> byte list \<Rightarrow> (value \<times> nat) option"
  pseudo_print :: "stream_format \<Rightarrow> byte list \<Rightarrow> byte list option"
  pseudo_scan :: "stream_format \<Rightarrow> byte list \<Rightarrow> nat \<Rightarrow> nat option"
  bus_accepts :: "effect \<Rightarrow> bool"
  bus_attached :: bool
  bus_async :: bool
  field_value :: "string \<Rightarrow> format_type \<Rightarrow> value list option"
  field_elems :: "string \<Rightarrow> nat"
  field_is_char :: "string \<Rightarrow> bool"
  field_is_time :: "string \<Rightarrow> bool"
  field_put :: "string \<Rightarrow> format_type \<Rightarrow> value list \<Rightarrow> bool"
  record_accepts :: "value \<Rightarrow> bool"
  execute_ok :: "byte list \<Rightarrow> bool"

record core =
  flags :: "flag set"
  body :: "command list"
  commandIndex :: nat
  activeCommand :: nat
  runningHandler :: protocol_result
  inputBuffer :: "byte list"
  unparsedInput :: bool
  lastInputStatus :: io_status
  outputLine :: "byte list"
  inputLine :: "byte list"
  consumedInput :: nat
  record_out :: "value list list"
  record_in :: "(string option \<times> value) list"
  effects :: "effect list"
  results :: "protocol_result list"

text \<open>The constructor \<open>StreamCore()\<close> followed by \<open>compile()\<close>'s \<open>extrainput\<close> flag.\<close>

definition core_init :: "bool \<Rightarrow> value list list \<Rightarrow> core" where
  "core_init ignore vals =
     \<lparr>flags = (if ignore then {IgnoreExtraInput} else {}), body = [], commandIndex = 0,
      activeCommand = 0, runningHandler = Success, inputBuffer = [], unparsedInput = False,
      lastInputStatus = ioSuccess, outputLine = [], inputLine = [], consumedInput = 0,
      record_out = vals, record_in = [], effects = [], results = []\<rparr>"

definition cmd_at :: "command list \<Rightarrow> nat \<Rightarrow> command" where
  "cmd_at cs i = (if i < length cs then cs ! i else CmdEnd)"

definition in_template :: "command \<Rightarrow> token list option" where
  "in_template c = (case c of CmdIn t \<Rightarrow> Some t | _ \<Rightarrow> None)"

section \<open>Output: printSeparator, printValue, formatOutput\<close>

text \<open>The separator bytes \<open>printSeparator\<close> emits: wildcards dropped, escapes resolved.\<close>

fun sep_print_bytes :: "byte list \<Rightarrow> byte list" where
  "sep_print_bytes [] = []"
| "sep_print_bytes (c # cs) =
     (if c = skip_code then sep_print_bytes cs
      else if c = esc_code then (case cs of [] \<Rightarrow> [0] | d # ds \<Rightarrow> d # sep_print_bytes ds)
      else c # sep_print_bytes cs)"

definition printSeparator :: "protocol \<Rightarrow> core \<Rightarrow> core" where
  "printSeparator p s =
     (if Separator \<notin> flags s then s\<lparr>flags := insert Separator (flags s)\<rparr>
      else if separator p = [] then s
      else s\<lparr>outputLine := outputLine s @
               sep_print_bytes (if hd (separator p) = 32 then tl (separator p) else separator p)\<rparr>)"

definition value_type_ok :: "stream_format \<Rightarrow> value \<Rightarrow> bool" where
  "value_type_ok f v =
     (case v of
        LongVal _ \<Rightarrow> ftype f = long_format \<or> ftype f = enum_format
      | DoubleVal _ \<Rightarrow> ftype f = double_format
      | StringVal _ \<Rightarrow> ftype f = string_format)"

text \<open>The three overloads \<open>printValue(format, long|double|char* )\<close>.\<close>

definition printValue :: "env \<Rightarrow> stream_format \<Rightarrow> value \<Rightarrow> core \<Rightarrow> bool \<times> core" where
  "printValue e f v s =
     (if \<not> value_type_ok f v then (False, s)
      else
        (let s1 = printSeparator (proto e) s
         in case conv_print e f v of
              None \<Rightarrow> (False, s1)
            | Some bs \<Rightarrow> (True, s1\<lparr>outputLine := outputLine s1 @ bs\<rparr>)))"

fun printValues :: "env \<Rightarrow> stream_format \<Rightarrow> value list \<Rightarrow> core \<Rightarrow> bool \<times> core" where
  "printValues e f [] s = (True, s)"
| "printValues e f (v # vs) s =
     (let (ok, s1) = printValue e f v s in if ok then printValues e f vs s1 else (False, s1))"

text \<open>
  \<open>Stream::formatValue\<close>: a \<open>%(field)\<close> format prints every element of the
  field; otherwise the record's \<open>writeData\<close> hands over its next value (one
  element for a scalar record, all elements for an array record).
\<close>

definition formatValue :: "env \<Rightarrow> stream_format \<Rightarrow> string option \<Rightarrow> core \<Rightarrow> bool \<times> core" where
  "formatValue e f fld s =
     (case fld of
        Some name \<Rightarrow>
          (if ftype f = pseudo_format \<or> (field_is_time e name \<and> ftype f \<noteq> double_format) then (False, s)
           else (case field_value e name (ftype f) of None \<Rightarrow> (False, s) | Some vs \<Rightarrow> printValues e f vs s))
      | None \<Rightarrow>
          (case record_out s of
             [] \<Rightarrow> (False, s)
           | vs # rest \<Rightarrow> printValues e f vs (s\<lparr>record_out := rest\<rparr>)))"

text \<open>
  The loop of \<open>formatOutput\<close>; \<open>fld\<close> is the pending \<open>fieldAddress\<close>, which a
  pseudo format leaves in place.
\<close>

fun formatOutput_loop :: "env \<Rightarrow> token list \<Rightarrow> string option \<Rightarrow> core \<Rightarrow> bool \<times> core" where
  "formatOutput_loop e [] fld s = (True, s)"
| "formatOutput_loop e (Lit c # ts) fld s =
     formatOutput_loop e ts fld (s\<lparr>outputLine := outputLine s @ [c]\<rparr>)"
| "formatOutput_loop e (SkipTok # ts) fld s =
     formatOutput_loop e ts fld (s\<lparr>outputLine := outputLine s @ [skip_code]\<rparr>)"
| "formatOutput_loop e (FormatField name f # ts) fld s =
     (if ftype f = pseudo_format then
        (case pseudo_print e f (outputLine s) of
           None \<Rightarrow> (False, s)
         | Some ol \<Rightarrow> formatOutput_loop e ts (Some name) (s\<lparr>outputLine := ol\<rparr>))
      else
        (let (ok, s1) = formatValue e f (Some name) (s\<lparr>flags := flags s - {Separator}\<rparr>)
         in if ok then formatOutput_loop e ts None s1 else (False, s1)))"
| "formatOutput_loop e (Format f # ts) fld s =
     (if ftype f = pseudo_format then
        (case pseudo_print e f (outputLine s) of
           None \<Rightarrow> (False, s)
         | Some ol \<Rightarrow> formatOutput_loop e ts fld (s\<lparr>outputLine := ol\<rparr>))
      else
        (let (ok, s1) = formatValue e f fld (s\<lparr>flags := flags s - {Separator}\<rparr>)
         in if ok then formatOutput_loop e ts None s1 else (False, s1)))"

definition formatOutput :: "env \<Rightarrow> token list \<Rightarrow> core \<Rightarrow> bool \<times> core" where
  "formatOutput e t s = formatOutput_loop e t None s"

section \<open>Input: matchSeparator, scanValue, matchInput\<close>

text \<open>\<open>while (isspace(inputLine[consumedInput++]));\<close>\<close>

function skip_spaces :: "byte list \<Rightarrow> nat \<Rightarrow> nat" where
  "skip_spaces inp i = (if isspace (byte_at inp i) then skip_spaces inp (Suc i) else Suc i)"
  by pat_completeness auto
termination
proof (relation "measure (\<lambda>(inp, i). length inp - i)")
  fix inp i
  assume "isspace (byte_at inp i)"
  then have "byte_at inp i \<noteq> 0" by auto
  then have "i < length inp" by (rule byte_at_nonzero_less)
  then show "((inp, Suc i), (inp, i)) \<in> measure (\<lambda>(inp, i). length inp - i)" by simp
qed simp

text \<open>The \<open>for\<close> loop of \<open>matchSeparator\<close>: \<open>Some\<close> the new \<open>consumedInput\<close>.\<close>

function sep_match :: "byte list \<Rightarrow> byte list \<Rightarrow> nat \<Rightarrow> nat option" where
  "sep_match [] inp i = Some i"
| "sep_match (c # cs) inp i =
     (if byte_at inp i = 0 then None
      else if c = skip_code then sep_match cs inp (Suc i)
      else if c = esc_code then
        (if byte_at cs 0 \<noteq> byte_at inp i then None else sep_match (drop 1 cs) inp (Suc i))
      else if c \<noteq> byte_at inp i then None
      else sep_match cs inp (Suc i))"
  by pat_completeness auto
termination
  by (relation "measure (\<lambda>(cs, inp, i). length cs)") auto

definition matchSeparator :: "protocol \<Rightarrow> core \<Rightarrow> bool \<times> core" where
  "matchSeparator p s =
     (if Separator \<notin> flags s then (True, s\<lparr>flags := insert Separator (flags s)\<rparr>)
      else if separator p = [] then (True, s)
      else
        (let sep = separator p;
             (rest, ci) = (if hd sep = 32 then (tl sep, skip_spaces (inputLine s) (consumedInput s))
                           else (sep, consumedInput s))
         in case sep_match rest (inputLine s) ci of
              None \<Rightarrow> (False, s)
            | Some ci' \<Rightarrow> (True, s\<lparr>consumedInput := ci'\<rparr>)))"

text \<open>The three overloads \<open>scanValue(format, long&|double&|char* )\<close>: \<open>Some\<close> the value and the consumed count.\<close>

definition scanValue :: "env \<Rightarrow> stream_format \<Rightarrow> core \<Rightarrow> (value \<times> nat) option \<times> core" where
  "scanValue e f s =
     (if ftype f = pseudo_format then (None, s)
      else
        (let (ok, s1) = matchSeparator (proto e) (s\<lparr>flags := insert ScanTried (flags s)\<rparr>)
         in if \<not> ok then (None, s1)
            else
              (case conv_scan e f (drop (consumedInput s1) (inputLine s1)) of
                 None \<Rightarrow> (None, s1)
               | Some (v, c) \<Rightarrow>
                   (if int (length (inputLine s1)) - int (consumedInput s1) < int c then (None, s1)
                    else (Some (v, c), s1\<lparr>flags := insert GotValue (flags s1)\<rparr>)))))"

text \<open>
  The \<open>for (nord = 0; nord < nelem; nord++)\<close> loop of \<open>Stream::matchValue\<close>
  on a \<open>%(field)\<close> address: one \<open>scanValue\<close> per element, stopping at the
  first that fails, \<open>consumedInput\<close> advanced after each.
\<close>

fun field_scan_loop :: "env \<Rightarrow> stream_format \<Rightarrow> nat \<Rightarrow> core \<Rightarrow> value list \<times> core" where
  "field_scan_loop e f 0 s = ([], s)"
| "field_scan_loop e f (Suc k) s =
     (let (r, s1) = scanValue e f s
      in case r of
           None \<Rightarrow> ([], s1)
         | Some (v, c) \<Rightarrow>
             (let (vs, s2) = field_scan_loop e f k (s1\<lparr>consumedInput := consumedInput s1 + c\<rparr>)
              in (v # vs, s2)))"

text \<open>
  \<open>Stream::matchValue\<close>. With a field address: a string into a CHAR array is
  one scan (\<open>nord = nelem\<close> cuts the loop), other formats scan up to
  \<open>no_elements\<close> values; no value is a failure; the \<open>TIME\<close> field takes
  only doubles; otherwise \<open>dbPut\<close> stores the values, and a failed put clears
  \<open>ScanTried\<close>. Without one, the record's \<open>readData\<close> scans one value; when
  the record refuses it after bytes were scanned \<open>ScanTried\<close> is cleared,
  and on success \<open>ValueReceived\<close> is set and \<open>consumedInput\<close> advances.
\<close>

definition matchValue :: "env \<Rightarrow> stream_format \<Rightarrow> string option \<Rightarrow> core \<Rightarrow> bool \<times> core" where
  "matchValue e f fld s =
     (case fld of
        Some name \<Rightarrow>
          (let n = (if ftype f = string_format \<and> field_is_char e name then 1 else field_elems e name);
               (vs, s1) = field_scan_loop e f n s
           in if vs = [] then (False, s1)
              else if field_is_time e name then
                (if ftype f \<noteq> double_format then (False, s1)
                 else (True, s1\<lparr>record_in := record_in s1 @ [(fld, last vs)]\<rparr>))
              else if field_put e name (ftype f) vs then
                (True, s1\<lparr>record_in := record_in s1 @ map (\<lambda>v. (fld, v)) vs\<rparr>)
              else (False, s1\<lparr>flags := flags s1 - {ScanTried}\<rparr>))
      | None \<Rightarrow>
          (let (r, s1) = scanValue e f s
           in case r of
                None \<Rightarrow> (False, s1)
              | Some (v, c) \<Rightarrow>
                  (if record_accepts e v then
                     (True, s1\<lparr>flags := insert ValueReceived (flags s1), consumedInput := consumedInput s1 + c,
                               record_in := record_in s1 @ [(fld, v)]\<rparr>)
                   else (False, if 0 < c then s1\<lparr>flags := flags s1 - {ScanTried}\<rparr> else s1))))"

definition scan_skipped :: "env \<Rightarrow> stream_format \<Rightarrow> core \<Rightarrow> nat option" where
  "scan_skipped e f s =
     (if ftype f = pseudo_format then pseudo_scan e f (inputLine s) (consumedInput s)
      else map_option snd (conv_scan e f (drop (consumedInput s) (inputLine s))))"

fun matchInput_loop :: "env \<Rightarrow> token list \<Rightarrow> string option \<Rightarrow> core \<Rightarrow> bool \<times> core" where
  "matchInput_loop e [] fld s =
     (if 0 < int (length (inputLine s)) - int (consumedInput s) \<and> IgnoreExtraInput \<notin> flags s
      then (False, s) else (True, s))"
| "matchInput_loop e (Lit c # ts) fld s =
     (if length (inputLine s) \<le> consumedInput s then (False, s)
      else if c \<noteq> inputLine s ! consumedInput s then (False, s)
      else matchInput_loop e ts fld (s\<lparr>consumedInput := Suc (consumedInput s)\<rparr>))"
| "matchInput_loop e (SkipTok # ts) fld s =
     matchInput_loop e ts fld (s\<lparr>consumedInput := Suc (consumedInput s)\<rparr>)"
| "matchInput_loop e (FormatField name f # ts) fld s =
     (if skip_flag \<in> fflags f \<or> ftype f = pseudo_format then
        (case scan_skipped e f s of
           None \<Rightarrow> (False, s)
         | Some c \<Rightarrow> matchInput_loop e ts (Some name) (s\<lparr>consumedInput := consumedInput s + c\<rparr>))
      else
        (let (ok, s1) = matchValue e f (Some name) (s\<lparr>flags := flags s - {Separator}\<rparr>)
         in if ok then matchInput_loop e ts None s1 else (False, s1)))"
| "matchInput_loop e (Format f # ts) fld s =
     (if skip_flag \<in> fflags f \<or> ftype f = pseudo_format then
        (case scan_skipped e f s of
           None \<Rightarrow> (False, s)
         | Some c \<Rightarrow> matchInput_loop e ts fld (s\<lparr>consumedInput := consumedInput s + c\<rparr>))
      else
        (let (ok, s1) = matchValue e f fld (s\<lparr>flags := flags s - {Separator}\<rparr>)
         in if ok then matchInput_loop e ts None s1 else (False, s1)))"

definition matchInput :: "env \<Rightarrow> token list \<Rightarrow> core \<Rightarrow> bool \<times> core" where
  "matchInput e t s = matchInput_loop e t None (s\<lparr>consumedInput := 0\<rparr>)"

section \<open>Commands without synchronous continuation\<close>

text \<open>\<open>evalOut\<close>, first half: flush input, format the output line.\<close>

definition evalOut_format :: "env \<Rightarrow> token list \<Rightarrow> core \<Rightarrow> bool \<times> core" where
  "evalOut_format e t s =
     formatOutput e t (s\<lparr>inputBuffer := [], unparsedInput := False, outputLine := []\<rparr>)"

text \<open>\<open>evalOut\<close>, second half: terminator, early-input flags, lock or write request.\<close>

definition evalOut_request :: "env \<Rightarrow> core \<Rightarrow> bool \<times> core" where
  "evalOut_request e s =
     (let p = proto e;
          s1 = s\<lparr>outputLine := outputLine s @ outTerminator p\<rparr>;
          nxt = cmd_at (body s1) (commandIndex s1);
          s2 = (case nxt of CmdIn _ \<Rightarrow> s1\<lparr>flags := insert AcceptInput (flags s1)\<rparr> | _ \<Rightarrow> s1);
          s3 = (case nxt of CmdEvent _ _ \<Rightarrow> s2\<lparr>flags := insert AcceptEvent (flags s2)\<rparr> | _ \<Rightarrow> s2)
      in if BusOwner \<notin> flags s3 then
           (let req = BusLockRequest (if InitRun \<in> flags s3 then 0 else lockTimeout p)
            in (bus_accepts e req,
                s3\<lparr>flags := insert LockPending (flags s3), effects := effects s3 @ [req]\<rparr>))
         else
           (let req = BusWriteRequest (outputLine s3) (writeTimeout p)
            in (bus_accepts e req,
                s3\<lparr>flags := insert WritePending (flags s3), effects := effects s3 @ [req]\<rparr>)))"

definition evalWait :: "nat \<Rightarrow> core \<Rightarrow> core" where
  "evalWait t s = s\<lparr>flags := insert WaitPending (flags s), effects := effects s @ [TimerStart t]\<rparr>"

definition evalEvent :: "nat \<Rightarrow> nat \<Rightarrow> core \<Rightarrow> core" where
  "evalEvent evmask t s =
     (let s1 = (if AsyncMode \<in> flags s \<and> t = 0 \<and> BusOwner \<in> flags s
                then s\<lparr>flags := flags s - {BusOwner}, effects := effects s @ [BusUnlock]\<rparr> else s)
      in s1\<lparr>flags := insert AcceptEvent (flags s1), effects := effects s1 @ [BusAcceptEvent evmask t]\<rparr>)"

definition evalExec :: "env \<Rightarrow> token list \<Rightarrow> core \<Rightarrow> bool \<times> core" where
  "evalExec e t s =
     (let s1 = snd (formatOutput e t (s\<lparr>outputLine := []\<rparr>))
      in (execute_ok e (outputLine s1), s1\<lparr>effects := effects s1 @ [ShellExecute (outputLine s1)]\<rparr>))"

text \<open>\<open>evalIn\<close>'s read request: the bus is released first in asynchronous mode.\<close>

definition evalIn_request :: "protocol \<Rightarrow> int \<Rightarrow> core \<Rightarrow> core" where
  "evalIn_request p expected s =
     (if AsyncMode \<in> flags s then
        (let s1 = (if BusOwner \<in> flags s
                   then s\<lparr>flags := flags s - {BusOwner}, effects := effects s @ [BusUnlock]\<rparr> else s)
         in s1\<lparr>effects := effects s1 @ [BusReadRequest (pollPeriod p) (readTimeout p) expected True]\<rparr>)
      else s\<lparr>effects := effects s @ [BusReadRequest (replyTimeout p) (readTimeout p) expected False]\<rparr>)"

text \<open>
  How \<open>readCallback\<close> finds the end of the reply in the buffer: \<open>Inr (end, termlen)\<close>,
  or \<open>Inl n\<close> when more input is needed (\<open>n\<close> bytes, or \<open>-1\<close> for any amount).
\<close>

definition input_end :: "protocol \<Rightarrow> io_status \<Rightarrow> byte list \<Rightarrow> int + (nat \<times> nat)" where
  "input_end p st buf =
     (let (end0, termlen0) =
            (if inTerminator p \<noteq> [] then
               (let f = buf_find buf (inTerminator p) 0
                in if 0 \<le> f then (f, length (inTerminator p)) else (f, 0))
             else (-1, 0));
          end1 = (if st = ioEnd \<and> end0 < 0 then int (length buf) else end0);
          end2 = (if maxInput p \<noteq> 0 \<and> end1 < 0 \<and> int (maxInput p) \<le> int (length buf)
                  then int (maxInput p) else end1);
          (end3, termlen) = (if maxInput p \<noteq> 0 \<and> int (maxInput p) < end2
                             then (int (maxInput p), 0) else (end2, termlen0))
      in if end3 < 0 then
           (if st \<noteq> ioTimeout then
              Inl (if maxInput p \<noteq> 0 then int (maxInput p) - int (length buf) else -1)
            else Inr (length buf, termlen))
         else Inr (nat end3, termlen))"

text \<open>
  The handler \<open>finishProtocol\<close> looks up: \<open>onWriteTimeout()\<close> and its siblings
  return a pointer into the handler's buffer, which is never \<open>NULL\<close>, so a
  timeout always runs its handler, an undeclared one being the empty body; the
  other statuses have none.
\<close>

definition handler_for :: "protocol \<Rightarrow> protocol_result \<Rightarrow> command list option" where
  "handler_for p st =
     (case st of
        WriteTimeout \<Rightarrow> Some (onWriteTimeout p)
      | ReplyTimeout \<Rightarrow> Some (onReplyTimeout p)
      | ReadTimeout \<Rightarrow> Some (onReadTimeout p)
      | _ \<Rightarrow> None)"

text \<open>The end of \<open>finishProtocol\<close>: release the bus, call \<open>protocolFinishHook\<close>.\<close>

definition finish_release :: "protocol_result \<Rightarrow> core \<Rightarrow> core" where
  "finish_release st s =
     (let s1 = (if BusOwner \<in> flags s
                then s\<lparr>flags := flags s - {BusOwner}, effects := effects s @ [BusUnlock]\<rparr> else s)
      in s1\<lparr>results := results s1 @ [st]\<rparr>)"

section \<open>One step of each synchronous handler\<close>

text \<open>
  Each handler is split at the point where it calls another handler: the step
  function runs the handler's own code and returns which call comes next.
\<close>

datatype ec_action = EcDone bool core | EcFinish bool protocol_result core | EcIn core

definition evalCommand_step :: "env \<Rightarrow> core \<Rightarrow> ec_action" where
  "evalCommand_step e s =
     (if flags s \<inter> BusPending \<noteq> {} then EcDone False s
      else
        (let s1 = s\<lparr>activeCommand := commandIndex s, commandIndex := Suc (commandIndex s)\<rparr>
         in case cmd_at (body s) (commandIndex s) of
              CmdOut t \<Rightarrow>
                (let (ok, s2) = evalOut_format e t (s1\<lparr>flags := flags s1 - {AcceptInput, AcceptEvent}\<rparr>)
                 in if ok then (let (r, s3) = evalOut_request e s2 in EcDone r s3)
                    else EcFinish False FormatError s2)
            | CmdIn t \<Rightarrow> EcIn (s1\<lparr>flags := flags s1 - {AcceptEvent}\<rparr>)
            | CmdWait t \<Rightarrow> EcDone True (evalWait t (s1\<lparr>flags := flags s1 - {AcceptInput, AcceptEvent}\<rparr>))
            | CmdEvent m t \<Rightarrow> EcDone True (evalEvent m t (s1\<lparr>flags := flags s1 - {AcceptInput}\<rparr>))
            | CmdExec t \<Rightarrow> (let (r, s2) = evalExec e t s1 in EcDone r s2)
            | CmdEnd \<Rightarrow> EcFinish True Success s1
            | CmdIllegal c \<Rightarrow> EcFinish False Fault (s1\<lparr>flags := flags s1 - BusPending\<rparr>)))"

datatype rc_action = RcDone int core | RcFinish protocol_result core | RcIn core | RcNext core

text \<open>
  \<open>readCallback\<close> once the reply is known to belong to the active \<open>in\<close> command
  with template \<open>t\<close>: find the end, match, drop the parsed bytes and decide.
\<close>

definition readCallback_parse :: "env \<Rightarrow> io_status \<Rightarrow> token list \<Rightarrow> core \<Rightarrow> rc_action" where
  "readCallback_parse e st t s =
     (case input_end (proto e) st (inputBuffer s) of
        Inl want \<Rightarrow> RcDone want (s\<lparr>flags := insert AcceptInput (flags s)\<rparr>)
      | Inr (end_pos, termlen) \<Rightarrow>
          (let r = matchInput e t (s\<lparr>inputLine := take end_pos (inputBuffer s)\<rparr>);
               s3 = snd r;
               rest = drop (end_pos + termlen) (inputBuffer s3);
               s4 = s3\<lparr>inputBuffer := rest, unparsedInput := (rest \<noteq> [])\<rparr>
           in if \<not> fst r then
                (if st = ioTimeout then RcFinish ReadTimeout s4
                 else if AsyncMode \<in> flags s4 then RcIn s4
                 else RcFinish ScanError s4)
              else if st = ioTimeout then RcFinish ReadTimeout s4
              else RcNext (s4\<lparr>flags := flags s4 - {AsyncMode, AcceptInput}\<rparr>)))"

text \<open>\<open>readCallback\<close> after the lock: \<open>RcIn\<close> restarts \<open>evalIn\<close>, \<open>RcNext\<close> runs the next command.\<close>

definition readCallback_step :: "env \<Rightarrow> io_status \<Rightarrow> byte list \<Rightarrow> core \<Rightarrow> rc_action" where
  "readCallback_step e st input s =
     (let p = proto e; s0 = s\<lparr>lastInputStatus := st\<rparr>
      in if AcceptInput \<notin> flags s0 then RcDone 0 s0
      else
        (let s1 = s0\<lparr>flags := flags s0 - {AcceptInput}, unparsedInput := False\<rparr>
         in case st of
              ioNoReply \<Rightarrow>
                (if AsyncMode \<in> flags s1 then RcIn s1
                 else RcFinish ReplyTimeout (s1\<lparr>inputBuffer := []\<rparr>))
            | ioFault \<Rightarrow> RcFinish Fault s1
            | _ \<Rightarrow>
                (let st' = (if st = ioTimeout \<and> inTerminator p = [] \<and> maxInput p = 0 then ioEnd else st);
                     s2 = s1\<lparr>inputBuffer := inputBuffer s1 @ input\<rparr>
                 in case in_template (cmd_at (body s2) (activeCommand s2)) of
                      None \<Rightarrow> RcDone 0 (if inputBuffer s2 \<noteq> [] then s2\<lparr>unparsedInput := True\<rparr> else s2)
                    | Some t \<Rightarrow> readCallback_parse e st' t s2)))"

datatype fp_action = FpDone core | FpHandler core

definition finishProtocol_step :: "env \<Rightarrow> protocol_result \<Rightarrow> core \<Rightarrow> fp_action" where
  "finishProtocol_step e st s =
     (let st1 = (if flags s \<inter> BusPending \<noteq> {} then Fault else st);
          s1 = s\<lparr>flags := flags s - {AcceptInput, AcceptEvent}\<rparr>
      in if runningHandler s1 \<noteq> Success then
           FpDone (finish_release (if st1 = Success then runningHandler s1 else st1) s1)
         else
           (let handler = handler_for (proto e) st1;
                s2 = (if st1 = Abort \<or> st1 = Fault then s1\<lparr>inputBuffer := []\<rparr> else s1)
            in case handler of
                 Some h \<Rightarrow> FpHandler (s2\<lparr>runningHandler := st1, body := h, commandIndex := 0\<rparr>)
               | None \<Rightarrow> FpDone (finish_release st1 s2)))"

section \<open>The synchronous recursion\<close>

fun evalCommand :: "nat \<Rightarrow> env \<Rightarrow> core \<Rightarrow> (bool \<times> core) option"
and evalIn :: "nat \<Rightarrow> env \<Rightarrow> core \<Rightarrow> (bool \<times> core) option"
and readCallback :: "nat \<Rightarrow> env \<Rightarrow> io_status \<Rightarrow> byte list \<Rightarrow> core \<Rightarrow> (int \<times> core) option"
and finishProtocol :: "nat \<Rightarrow> env \<Rightarrow> protocol_result \<Rightarrow> core \<Rightarrow> core option" where
  "evalCommand 0 e s = None"
| "evalCommand (Suc n) e s =
     (case evalCommand_step e s of
        EcDone r s1 \<Rightarrow> Some (r, s1)
      | EcFinish r st s1 \<Rightarrow> map_option (Pair r) (finishProtocol n e st s1)
      | EcIn s1 \<Rightarrow> evalIn n e s1)"
| "evalIn 0 e s = None"
| "evalIn (Suc n) e s =
     (let s1 = s\<lparr>flags := insert AcceptInput (flags s)\<rparr>
      in if inputBuffer s1 \<noteq> [] \<and> unparsedInput s1 then
           (case readCallback n e (lastInputStatus s1) [] s1 of
              None \<Rightarrow> None
            | Some (r, s2) \<Rightarrow> Some (True, if r = 0 then s2 else evalIn_request (proto e) r s2))
         else Some (True, evalIn_request (proto e) (int (maxInput (proto e))) s1))"
| "readCallback 0 e st input s = None"
| "readCallback (Suc n) e st input s =
     (case readCallback_step e st input s of
        RcDone r s1 \<Rightarrow> Some (r, s1)
      | RcFinish st1 s1 \<Rightarrow> map_option (Pair 0) (finishProtocol n e st1 s1)
      | RcIn s1 \<Rightarrow> map_option (\<lambda>r. (0, snd r)) (evalIn n e s1)
      | RcNext s1 \<Rightarrow> map_option (\<lambda>r. (0, snd r)) (evalCommand n e s1))"
| "finishProtocol 0 e st s = None"
| "finishProtocol (Suc n) e st s =
     (case finishProtocol_step e st s of
        FpDone s1 \<Rightarrow> Some s1
      | FpHandler s1 \<Rightarrow> map_option snd (evalCommand n e s1))"

section \<open>Entry points\<close>

definition startProtocol :: "nat \<Rightarrow> env \<Rightarrow> start_mode \<Rightarrow> core \<Rightarrow> (bool \<times> core) option" where
  "startProtocol n e m s =
     (let p = proto e
      in if \<not> bus_attached e then Some (False, s)
      else
        (let s1 = s\<lparr>flags := flags s - ClearOnStart\<rparr>
         in if m = StartAsync \<and> \<not> bus_async e then Some (False, s1)
         else
           evalCommand n e
             (s1\<lparr>flags := flags s1 \<union> (if m = StartInit then {InitRun}
                                       else if m = StartAsync then {AsyncMode} else {}),
                 body := (if m = StartInit then onInit p else commands p),
                 commandIndex := 0, runningHandler := Success,
                 effects := effects s1 @ [BusSetEos (inTerminator p)]\<rparr>)))"

definition lockCallback :: "nat \<Rightarrow> env \<Rightarrow> io_status \<Rightarrow> core \<Rightarrow> core option" where
  "lockCallback n e st s =
     (if LockPending \<notin> flags s then Some s
      else
        (let s1 = s\<lparr>flags := insert BusOwner (flags s - {LockPending})\<rparr>
         in if st \<noteq> ioSuccess then finishProtocol n e LockTimeout s1
         else
           (let req = BusWriteRequest (outputLine s1) (writeTimeout (proto e));
                s2 = s1\<lparr>flags := insert WritePending (flags s1), effects := effects s1 @ [req]\<rparr>
            in if bus_accepts e req then Some s2 else finishProtocol n e Fault s2)))"

definition writeCallback :: "nat \<Rightarrow> env \<Rightarrow> io_status \<Rightarrow> core \<Rightarrow> core option" where
  "writeCallback n e st s =
     (if WritePending \<notin> flags s then Some s
      else
        (let s1 = s\<lparr>flags := flags s - {WritePending}\<rparr>
         in if st \<noteq> ioSuccess then finishProtocol n e WriteTimeout s1
            else map_option snd (evalCommand n e s1)))"

definition eventCallback :: "nat \<Rightarrow> env \<Rightarrow> io_status \<Rightarrow> core \<Rightarrow> core option" where
  "eventCallback n e st s =
     (if AcceptEvent \<notin> flags s then Some s
      else
        (let s1 = s\<lparr>flags := flags s - {AcceptEvent}\<rparr>
         in case st of
              ioTimeout \<Rightarrow> finishProtocol n e ReplyTimeout s1
            | ioSuccess \<Rightarrow> map_option snd (evalCommand n e s1)
            | _ \<Rightarrow> finishProtocol n e Fault s1))"

definition timerCallback :: "nat \<Rightarrow> env \<Rightarrow> core \<Rightarrow> core option" where
  "timerCallback n e s =
     (if WaitPending \<notin> flags s then Some s
      else map_option snd (evalCommand n e (s\<lparr>flags := flags s - {WaitPending}\<rparr>)))"

definition execCallback :: "nat \<Rightarrow> env \<Rightarrow> io_status \<Rightarrow> core \<Rightarrow> core option" where
  "execCallback n e st s =
     (if st = ioSuccess then map_option snd (evalCommand n e s) else finishProtocol n e Fault s)"

section \<open>Runs: external events in arrival order\<close>

datatype event =
    Start start_mode
  | LockCb io_status
  | WriteCb io_status
  | ReadCb io_status "byte list"
  | EventCb io_status
  | TimerCb
  | ExecCb io_status

fun core_step :: "nat \<Rightarrow> env \<Rightarrow> core \<Rightarrow> event \<Rightarrow> core option" where
  "core_step n e s (Start m) = map_option snd (startProtocol n e m s)"
| "core_step n e s (LockCb st) = lockCallback n e st s"
| "core_step n e s (WriteCb st) = writeCallback n e st s"
| "core_step n e s (ReadCb st bs) = map_option snd (readCallback n e st bs s)"
| "core_step n e s (EventCb st) = eventCallback n e st s"
| "core_step n e s TimerCb = timerCallback n e s"
| "core_step n e s (ExecCb st) = execCallback n e st s"

fun core_run :: "nat \<Rightarrow> env \<Rightarrow> core \<Rightarrow> event list \<Rightarrow> core option" where
  "core_run n e s [] = Some s"
| "core_run n e s (ev # evs) = (case core_step n e s ev of None \<Rightarrow> None | Some s1 \<Rightarrow> core_run n e s1 evs)"


section \<open>Pending bus requests\<close>

text \<open>
  \<open>pend s\<close> are the flags of \<open>BusPending\<close> that are set: the requests whose
  callback the session waits for. \<open>pending_ok\<close>: at most one of them.
\<close>

definition pend :: "core \<Rightarrow> flag set" where
  "pend s = flags s \<inter> BusPending"

definition pending_ok :: "core \<Rightarrow> bool" where
  "pending_ok s \<longleftrightarrow>
     pend s = {} \<or> pend s = {LockPending} \<or> pend s = {WritePending} \<or> pend s = {WaitPending}"

fun ec_state :: "ec_action \<Rightarrow> core" where
  "ec_state (EcDone r s) = s" | "ec_state (EcFinish r st s) = s" | "ec_state (EcIn s) = s"

fun rc_state :: "rc_action \<Rightarrow> core" where
  "rc_state (RcDone r s) = s" | "rc_state (RcFinish st s) = s" | "rc_state (RcIn s) = s"
| "rc_state (RcNext s) = s"

fun fp_state :: "fp_action \<Rightarrow> core" where
  "fp_state (FpDone s) = s" | "fp_state (FpHandler s) = s"

section \<open>Lemmas: what each handler does to the pending flags\<close>

named_theorems pend_simps

declare skip_spaces.simps [simp del]

lemma printSeparator_pend [pend_simps]: "pend (printSeparator p s) = pend s"
  by (auto simp: printSeparator_def pend_def BusPending_def)

lemma pend_upd [pend_simps]:
  "pend (s\<lparr>outputLine := x\<rparr>) = pend s" "pend (s\<lparr>record_out := y\<rparr>) = pend s"
  "pend (s\<lparr>consumedInput := c\<rparr>) = pend s" "pend (s\<lparr>record_in := r\<rparr>) = pend s"
  "pend (s\<lparr>inputBuffer := b\<rparr>) = pend s" "pend (s\<lparr>unparsedInput := u\<rparr>) = pend s"
  "pend (s\<lparr>inputLine := l\<rparr>) = pend s" "pend (s\<lparr>effects := ef\<rparr>) = pend s"
  "pend (s\<lparr>lastInputStatus := st\<rparr>) = pend s" "pend (s\<lparr>results := rs\<rparr>) = pend s"
  "pend (s\<lparr>activeCommand := a, commandIndex := i\<rparr>) = pend s"
  by (simp_all add: pend_def)

lemma not_pending [simp]:
  "Separator \<notin> BusPending" "ScanTried \<notin> BusPending" "GotValue \<notin> BusPending"
  "AcceptInput \<notin> BusPending" "AcceptEvent \<notin> BusPending" "BusOwner \<notin> BusPending"
  "AsyncMode \<notin> BusPending" "InitRun \<notin> BusPending"
  "{Separator} \<inter> BusPending = {}" "{AcceptInput, AcceptEvent} \<inter> BusPending = {}"
  "{AcceptInput} \<inter> BusPending = {}" "{AcceptEvent} \<inter> BusPending = {}"
  "{BusOwner} \<inter> BusPending = {}" "{AsyncMode, AcceptInput} \<inter> BusPending = {}"
  by (simp_all add: BusPending_def)

lemma printValue_pend [pend_simps]: "pend (snd (printValue e f v s)) = pend s"
  by (simp add: printValue_def Let_def pend_simps split: option.split)

lemma printValues_pend [pend_simps]: "pend (snd (printValues e f vs s)) = pend s"
  by (induction vs arbitrary: s) (simp_all add: split_def Let_def pend_simps)

lemma formatValue_pend [pend_simps]: "pend (snd (formatValue e f fld s)) = pend s"
  by (simp add: formatValue_def pend_simps split: option.split list.split)

lemma pend_sep_cleared [pend_simps]: "pend (s\<lparr>flags := flags s - {Separator}\<rparr>) = pend s"
  by (auto simp: pend_def)

lemma formatOutput_loop_pend [pend_simps]: "pend (snd (formatOutput_loop e ts fld s)) = pend s"
proof (induction ts arbitrary: fld s)
  case Nil
  show ?case by simp
next
  case (Cons t ts)
  show ?case
  proof (cases t)
    case (Format f)
    have fv: "pend (snd (formatValue e f fld (s\<lparr>flags := flags s - {Separator}\<rparr>))) = pend s"
      by (simp only: formatValue_pend pend_sep_cleared)
    show ?thesis
      using Format fv Cons.IH by (auto simp: split_def Let_def pend_upd split: option.split)
  next
    case (FormatField name f)
    have fv: "pend (snd (formatValue e f (Some name) (s\<lparr>flags := flags s - {Separator}\<rparr>))) = pend s"
      by (simp only: formatValue_pend pend_sep_cleared)
    show ?thesis
      using FormatField fv Cons.IH by (auto simp: split_def Let_def pend_upd split: option.split)
  qed (simp_all add: Cons.IH pend_upd)
qed
lemma matchSeparator_pend [pend_simps]: "pend (snd (matchSeparator p s)) = pend s"
  by (auto simp: matchSeparator_def split_def Let_def pend_def split: option.split)

lemma scanValue_pend [pend_simps]: "pend (snd (scanValue e f s)) = pend s"
proof -
  have "pend (snd (matchSeparator (proto e) (s\<lparr>flags := insert ScanTried (flags s)\<rparr>))) =
        pend (s\<lparr>flags := insert ScanTried (flags s)\<rparr>)"
    by (rule matchSeparator_pend)
  also have "\<dots> = pend s" by (auto simp: pend_def BusPending_def)
  finally have "pend (snd (matchSeparator (proto e) (s\<lparr>flags := insert ScanTried (flags s)\<rparr>))) = pend s" .
  then show ?thesis
    by (auto simp: scanValue_def split_def Let_def pend_def split: option.split)
qed

lemma field_scan_loop_pend [pend_simps]: "pend (snd (field_scan_loop e f n s)) = pend s"
proof (induction n arbitrary: s)
  case (Suc k)
  have "pend (snd (scanValue e f s)) = pend s" by (rule scanValue_pend)
  then show ?case using Suc.IH by (auto simp: split_def Let_def pend_def split: option.split)
qed simp

lemma matchValue_pend [pend_simps]: "pend (snd (matchValue e f fld s)) = pend s"
  using scanValue_pend [of e f s] field_scan_loop_pend [of e f _ s]
  by (auto simp: matchValue_def split_def Let_def pend_def BusPending_def split: option.split)

lemma matchInput_loop_pend [pend_simps]: "pend (snd (matchInput_loop e ts fld s)) = pend s"
proof (induction ts arbitrary: fld s)
  case Nil
  show ?case by simp
next
  case (Cons t ts)
  show ?case
  proof (cases t)
    case (Format f)
    have fv: "pend (snd (matchValue e f fld (s\<lparr>flags := flags s - {Separator}\<rparr>))) = pend s"
      by (simp only: matchValue_pend pend_sep_cleared)
    show ?thesis
      using Format fv Cons.IH by (auto simp: split_def Let_def pend_upd split: option.split)
  next
    case (FormatField name f)
    have fv: "pend (snd (matchValue e f (Some name) (s\<lparr>flags := flags s - {Separator}\<rparr>))) = pend s"
      by (simp only: matchValue_pend pend_sep_cleared)
    show ?thesis
      using FormatField fv Cons.IH by (auto simp: split_def Let_def pend_upd split: option.split)
  qed (simp_all add: Cons.IH pend_upd)
qed

lemma formatOutput_pend [pend_simps]: "pend (snd (formatOutput e t s)) = pend s"
  by (simp add: formatOutput_def formatOutput_loop_pend)

lemma matchInput_pend [pend_simps]: "pend (snd (matchInput e t s)) = pend s"
  by (simp add: matchInput_def matchInput_loop_pend pend_upd)

lemma pending_ok_pend_eq: "pend s' = pend s \<Longrightarrow> pending_ok s \<Longrightarrow> pending_ok s'"
  by (simp add: pending_ok_def)

lemma evalOut_request_pend:
  "pend s = {} \<Longrightarrow> pending_ok (snd (evalOut_request e s))"
  by (auto simp: evalOut_request_def Let_def pending_ok_def pend_def BusPending_def split: command.split)

lemma evalOut_format_pend [pend_simps]: "pend (snd (evalOut_format e t s)) = pend s"
  by (simp add: evalOut_format_def formatOutput_pend pend_upd)

lemma evalExec_pend [pend_simps]: "pend (snd (evalExec e t s)) = pend s"
  by (simp add: evalExec_def Let_def pend_upd formatOutput_pend)

lemma evalIn_request_pend [pend_simps]: "pend (evalIn_request p r s) = pend s"
  by (auto simp: evalIn_request_def Let_def pend_def)

lemma finish_release_pend [pend_simps]: "pend (finish_release st s) = pend s"
  by (auto simp: finish_release_def Let_def pend_def)

lemma evalCommand_step_pending:
  assumes ok: "pending_ok s"
  shows "pending_ok (ec_state (evalCommand_step e s))"
proof (cases "flags s \<inter> BusPending = {}")
  case False
  with ok show ?thesis by (simp add: evalCommand_step_def)
next
  case True
  then have p0: "pend s = {}" by (simp add: pend_def)
  let ?s1 = "s\<lparr>activeCommand := commandIndex s, commandIndex := Suc (commandIndex s)\<rparr>"
  have p1: "pend ?s1 = {}" using p0 by (simp add: pend_def)
  show ?thesis
  proof (cases "cmd_at (body s) (commandIndex s)")
    case (CmdOut t)
    let ?s2 = "snd (evalOut_format e t (?s1\<lparr>flags := flags ?s1 - {AcceptInput, AcceptEvent}\<rparr>))"
    have "pend ?s2 = {}" using p1 by (simp add: evalOut_format_pend, auto simp: pend_def)
    then show ?thesis using CmdOut True evalOut_request_pend [of ?s2 e]
      by (auto simp: evalCommand_step_def split_def Let_def pending_ok_def)
  next
    case (CmdExec t)
    have "pend (snd (evalExec e t ?s1)) = {}" using p1 by (simp add: evalExec_pend)
    then show ?thesis using CmdExec True
      by (auto simp: evalCommand_step_def split_def Let_def pending_ok_def)
  qed (use True p0 in \<open>auto simp: evalCommand_step_def Let_def pending_ok_def pend_def
        evalWait_def evalEvent_def BusPending_def\<close>)
qed

lemma finishProtocol_step_pend: "pend (fp_state (finishProtocol_step e st s)) = pend s"
  by (auto simp: finishProtocol_step_def Let_def pend_def finish_release_def split: option.split)

lemma pend_flag_upds [pend_simps]:
  "pend (s\<lparr>flags := flags s - {AcceptInput}\<rparr>) = pend s"
  "pend (s\<lparr>flags := insert AcceptInput (flags s)\<rparr>) = pend s"
  "pend (s\<lparr>flags := flags s - {AsyncMode, AcceptInput}\<rparr>) = pend s"
  "pend (s\<lparr>flags := flags s - {AcceptInput, AcceptEvent}\<rparr>) = pend s"
  by (auto simp: pend_def BusPending_def)

lemma readCallback_parse_pend: "pend (rc_state (readCallback_parse e st t s)) = pend s"
proof (cases "input_end (proto e) st (inputBuffer s)")
  case (Inl w)
  then show ?thesis by (simp add: readCallback_parse_def pend_flag_upds)
next
  case (Inr x)
  obtain end_pos termlen where x: "x = (end_pos, termlen)" by (cases x)
  define r where "r = matchInput e t (s\<lparr>inputLine := take end_pos (inputBuffer s)\<rparr>)"
  have "pend (snd r) = pend s" by (simp add: r_def matchInput_pend pend_upd)
  then have "flags (snd r) \<inter> BusPending = flags s \<inter> BusPending" by (simp add: pend_def)
  then show ?thesis using Inr x
    by (simp add: readCallback_parse_def Let_def flip: r_def)
       (auto simp: pend_def BusPending_def)
qed

lemma readCallback_step_pend: "pend (rc_state (readCallback_step e st inp s)) = pend s"
  by (simp add: readCallback_step_def Let_def readCallback_parse_pend pend_upd pend_flag_upds
      split: io_status.split option.split)
     (auto simp: pend_def)

lemma pending_ok_recursion:
  "(\<forall>s r s'. evalCommand n e s = Some (r, s') \<longrightarrow> pending_ok s \<longrightarrow> pending_ok s') \<and>
   (\<forall>s r s'. evalIn n e s = Some (r, s') \<longrightarrow> pending_ok s \<longrightarrow> pending_ok s') \<and>
   (\<forall>st inp s r s'. readCallback n e st inp s = Some (r, s') \<longrightarrow> pending_ok s \<longrightarrow> pending_ok s') \<and>
   (\<forall>st s s'. finishProtocol n e st s = Some s' \<longrightarrow> pending_ok s \<longrightarrow> pending_ok s')"
proof (induction n)
  case 0
  show ?case by simp
next
  case (Suc n)
  note IH = Suc.IH
  have ec: "pending_ok s'" if "evalCommand (Suc n) e s = Some (r, s')" "pending_ok s" for s r s'
  proof -
    have ok1: "pending_ok (ec_state (evalCommand_step e s))"
      using that(2) by (rule evalCommand_step_pending)
    show ?thesis
    proof (cases "evalCommand_step e s")
      case (EcDone b s1)
      then show ?thesis using that(1) ok1 by simp
    next
      case (EcFinish b st s1)
      then show ?thesis using that(1) ok1 IH by auto
    next
      case (EcIn s1)
      then show ?thesis using that(1) ok1 IH by auto
    qed
  qed
  have ei: "pending_ok s'" if ein: "evalIn (Suc n) e s = Some (r, s')" and okp: "pending_ok s" for s r s'
  proof -
    let ?s1 = "s\<lparr>flags := insert AcceptInput (flags s)\<rparr>"
    have ok1: "pending_ok ?s1"
      using okp pending_ok_pend_eq [of ?s1 s] by (simp add: pend_flag_upds)
    show ?thesis
    proof (cases "inputBuffer s \<noteq> [] \<and> unparsedInput s")
      case True
      then obtain r2 s2 where rc: "readCallback n e (lastInputStatus s) [] ?s1 = Some (r2, s2)"
        and s': "s' = (if r2 = 0 then s2 else evalIn_request (proto e) r2 s2)"
        using ein True by (auto simp: Let_def split: option.splits)
      have "pending_ok s2" using rc ok1 IH by auto
      then show ?thesis using s' pending_ok_pend_eq [of "evalIn_request (proto e) r2 s2" s2]
        by (simp add: evalIn_request_pend)
    next
      case False
      then have "s' = evalIn_request (proto e) (int (maxInput (proto e))) ?s1" using ein by (auto simp: Let_def)
      then show ?thesis using ok1 pending_ok_pend_eq by (simp add: evalIn_request_pend)
    qed
  qed
  have rc: "pending_ok s'" if "readCallback (Suc n) e st inp s = Some (r, s')" "pending_ok s" for st inp s r s'
  proof -
    have ok1: "pending_ok (rc_state (readCallback_step e st inp s))"
      using that(2) readCallback_step_pend pending_ok_pend_eq by blast
    show ?thesis
      using that(1) ok1 IH by (cases "readCallback_step e st inp s") auto
  qed
  have fp: "pending_ok s'" if "finishProtocol (Suc n) e st s = Some s'" "pending_ok s" for st s s'
  proof -
    have ok1: "pending_ok (fp_state (finishProtocol_step e st s))"
      using that(2) finishProtocol_step_pend pending_ok_pend_eq by blast
    show ?thesis
      using that(1) ok1 IH by (cases "finishProtocol_step e st s") auto
  qed
  show ?case using ec ei rc fp by blast
qed

lemmas evalCommand_pending_ok = pending_ok_recursion [THEN conjunct1, rule_format]
lemmas readCallback_pending_ok = pending_ok_recursion [THEN conjunct2, THEN conjunct2, THEN conjunct1, rule_format]
lemmas finishProtocol_pending_ok = pending_ok_recursion [THEN conjunct2, THEN conjunct2, THEN conjunct2, rule_format]

lemma core_step_pending_ok:
  assumes step: "core_step n e s ev = Some s'" and ok: "pending_ok s"
  shows "pending_ok s'"
proof (cases ev)
  case (Start m)
  have ok1: "pending_ok (s\<lparr>flags := flags s - ClearOnStart\<rparr>)"
    by (auto simp: pending_ok_def pend_def ClearOnStart_def BusPending_def)
  let ?s2 = "\<lambda>s1. s1\<lparr>flags := flags s1 \<union> (if m = StartInit then {InitRun} else if m = StartAsync then {AsyncMode} else {}),
                 body := (if m = StartInit then onInit (proto e) else commands (proto e)),
                 commandIndex := 0, runningHandler := Success,
                 effects := effects s1 @ [BusSetEos (inTerminator (proto e))]\<rparr>"
  have "pending_ok (?s2 (s\<lparr>flags := flags s - ClearOnStart\<rparr>))"
    by (auto simp: pending_ok_def pend_def ClearOnStart_def BusPending_def)
  then show ?thesis using Start step ok ok1
    by (auto simp: startProtocol_def Let_def dest: evalCommand_pending_ok split: if_splits option.splits)
next
  case (LockCb st)
  show ?thesis
  proof (cases "LockPending \<in> flags s")
    case False then show ?thesis using LockCb step ok by (simp add: lockCallback_def)
  next
    case True
    let ?s1 = "s\<lparr>flags := insert BusOwner (flags s - {LockPending})\<rparr>"
    let ?s2 = "?s1\<lparr>flags := insert WritePending (flags ?s1),
                  effects := effects ?s1 @ [BusWriteRequest (outputLine ?s1) (writeTimeout (proto e))]\<rparr>"
    have p1: "pend ?s1 = {}" using True ok by (auto simp: pending_ok_def pend_def BusPending_def)
    then have ok1: "pending_ok ?s1" by (simp add: pending_ok_def)
    have ok2: "pending_ok ?s2" using p1 by (auto simp: pending_ok_def pend_def BusPending_def)
    show ?thesis using LockCb step True ok1 ok2
      by (auto simp: lockCallback_def Let_def dest: finishProtocol_pending_ok split: if_splits)
  qed
next
  case (WriteCb st)
  have "pending_ok (s\<lparr>flags := flags s - {WritePending}\<rparr>)"
    using ok by (auto simp: pending_ok_def pend_def BusPending_def)
  then show ?thesis using WriteCb step ok
    by (auto simp: writeCallback_def Let_def dest: finishProtocol_pending_ok evalCommand_pending_ok
        split: if_splits)
next
  case (ReadCb st bs)
  then show ?thesis using step ok by (auto dest: readCallback_pending_ok)
next
  case (EventCb st)
  have "pending_ok (s\<lparr>flags := flags s - {AcceptEvent}\<rparr>)"
    using ok by (auto simp: pending_ok_def pend_def BusPending_def)
  then show ?thesis using EventCb step ok
    by (auto simp: eventCallback_def Let_def dest: finishProtocol_pending_ok evalCommand_pending_ok
        split: if_splits io_status.splits)
next
  case TimerCb
  have "pending_ok (s\<lparr>flags := flags s - {WaitPending}\<rparr>)"
    using ok by (auto simp: pending_ok_def pend_def BusPending_def)
  then show ?thesis using TimerCb step ok
    by (auto simp: timerCallback_def dest: evalCommand_pending_ok split: if_splits)
next
  case (ExecCb st)
  then show ?thesis using step ok
    by (auto simp: execCallback_def dest: finishProtocol_pending_ok evalCommand_pending_ok split: if_splits)
qed

text \<open>
  C1: Whatever sequence of callbacks arrives, a session never waits for two bus
  requests at once: at most one of \<open>LockPending\<close>, \<open>WritePending\<close>,
  \<open>WaitPending\<close> is set (spec, section 8, first invariant).
\<close>

theorem core_run_pending_ok:
  "pending_ok s \<Longrightarrow> core_run n e s evs = Some s' \<Longrightarrow> pending_ok s'"
proof (induction evs arbitrary: s)
  case Nil
  then show ?case by simp
next
  case (Cons ev evs)
  then obtain s1 where "core_step n e s ev = Some s1" "core_run n e s1 evs = Some s'"
    by (auto split: option.splits)
  with Cons show ?case by (blast intro: core_step_pending_ok)
qed

section \<open>Completion of a protocol and handlers\<close>

lemma formatOutput_loop_lits [simp]:
  "formatOutput_loop e (map Lit bs) fld s = (True, s\<lparr>outputLine := outputLine s @ bs\<rparr>)"
  by (induction bs arbitrary: s) simp_all

lemma finishProtocol_Suc_step:
  "finishProtocol (Suc n) e st s =
     (case finishProtocol_step e st s of FpDone s1 \<Rightarrow> Some s1 | FpHandler s1 \<Rightarrow> map_option snd (evalCommand n e s1))"
  by simp

lemmas finish_defs = finishProtocol_step_def handler_for_def finish_release_def Let_def

text \<open>
  Inside a handler (\<open>runningHandler \<noteq> Success\<close>) \<open>finishProtocol\<close>
  never starts another handler, and a handler that completes with
  \<open>Success\<close> reports the status that started it, so the caller of a
  protocol whose timeout was repaired by its handler sees the timeout.
\<close>

theorem finishProtocol_in_handler:
  "runningHandler s \<noteq> Success \<Longrightarrow>
   finishProtocol (Suc n) e st s =
     Some (finish_release (if flags s \<inter> BusPending \<noteq> {} then Fault
                           else if st = Success then runningHandler s else st)
                          (s\<lparr>flags := flags s - {AcceptInput, AcceptEvent}\<rparr>))"
  by (simp add: finish_defs)

text \<open>
  A mismatch outside a handler ends the protocol with \<open>ScanError\<close>
  and never runs the \<open>@mismatch\<close> handler, whatever the protocol declares
  there: \<open>finishProtocol\<close> looks up handlers for the three timeouts only.
\<close>

theorem finishProtocol_ScanError_unhandled:
  "flags s \<inter> BusPending = {} \<Longrightarrow> runningHandler s = Success \<Longrightarrow>
   finishProtocol (Suc n) e ScanError s =
     Some (finish_release ScanError (s\<lparr>flags := flags s - {AcceptInput, AcceptEvent}\<rparr>))"
  by (simp add: finish_defs)

text \<open>
  C9: When the lock request times out, \<open>lockCallback\<close> still marks the
  session as bus owner, so the protocol ends with \<open>LockTimeout\<close> and an
  unlock of a bus it was never granted.
\<close>

theorem lockCallback_timeout_unlocks:
  "pend s = {LockPending} \<Longrightarrow> runningHandler s = Success \<Longrightarrow> st \<noteq> ioSuccess \<Longrightarrow>
   map_option (\<lambda>s'. (effects s', results s')) (lockCallback (Suc n) e st s)
     = Some (effects s @ [BusUnlock], results s @ [LockTimeout])"
proof -
  assume p: "pend s = {LockPending}" and r: "runningHandler s = Success" and st: "st \<noteq> ioSuccess"
  have "insert BusOwner (flags s - {LockPending}) \<inter> BusPending = {}"
    using p by (auto simp: pend_def BusPending_def)
  with p r st show ?thesis
    by (auto simp: lockCallback_def finish_defs pend_def)
qed

text \<open>
  C10: When the bus owner's write request is refused, \<open>evalCommand\<close>
  returns \<open>false\<close> with \<open>WritePending\<close> set and no result: no callback will
  clear the flag, every later \<open>evalCommand\<close> refuses to run, and the
  protocol never finishes (\<open>lockCallback\<close> treats the same refusal as
  \<open>Fault\<close>).
\<close>

theorem evalOut_refused_write_stalls:
  assumes "flags s \<inter> BusPending = {}" and "BusOwner \<in> flags s"
    and "cmd_at (body s) (commandIndex s) = CmdOut (map Lit bs)"
    and "\<not> bus_accepts e (BusWriteRequest (bs @ outTerminator (proto e)) (writeTimeout (proto e)))"
  shows "\<exists>s'. evalCommand (Suc n) e s = Some (False, s') \<and> WritePending \<in> flags s'
              \<and> results s' = results s \<and> (\<forall>m. evalCommand (Suc m) e s' = Some (False, s'))"
  using assms
  by (auto simp: evalCommand_step_def evalOut_format_def evalOut_request_def formatOutput_def
                 Let_def BusPending_def split: command.splits)

section \<open>Where the reply ends\<close>

lemma terminator_unique_first:
  "\<forall>j. 0 < j \<and> j < length [13, 10 :: byte] \<longrightarrow> [13, 10 :: byte] ! j \<noteq> [13, 10 :: byte] ! 0"
  by (auto simp: less_Suc_eq)

text \<open>
  C3: With a terminator and no \<open>maxInput\<close>, a reply that ends with the
  terminator ends where the terminator starts, and the terminator's length
  is removed with it; this holds for every terminator whose first byte does
  not reappear in it and every NUL-free reply.
\<close>

theorem input_end_terminator:
  assumes "inTerminator p = tm" and "maxInput p = 0" and "0 \<notin> set pre" and "0 \<notin> set tm"
    and "tm \<noteq> []" and "\<forall>j. 0 < j \<and> j < length tm \<longrightarrow> tm ! j \<noteq> tm ! 0"
  shows "input_end p st (pre @ tm) = Inr (length pre, length tm)"
proof -
  have "buf_find (pre @ tm) tm 0 = int (length pre)"
    using buf_find_suffix [of "pre @ tm" tm] assms by auto
  then show ?thesis using assms by (simp add: input_end_def)
qed

text \<open>
  C11: Without a terminator and with \<open>maxInput > 0\<close>, the reply ends
  after \<open>maxInput\<close> bytes once that many have arrived; before that,
  \<open>readCallback\<close> asks for exactly the missing bytes, unless the read timed
  out or ended, in which case the bytes received are the reply.
\<close>

theorem input_end_maxInput:
  assumes "inTerminator p = []" and "0 < maxInput p"
  shows "input_end p st buf =
           (if maxInput p \<le> length buf then Inr (maxInput p, 0)
            else if st = ioTimeout \<or> st = ioEnd then Inr (length buf, 0)
            else Inl (int (maxInput p) - int (length buf)))"
  using assms by (auto simp: input_end_def Let_def)

section \<open>Separators in the input\<close>

lemma skip_spaces_run:
  "\<forall>w\<in>set ws. isspace w \<Longrightarrow> \<not> isspace x \<Longrightarrow>
   skip_spaces (pre @ ws @ x # rest) (length pre) = Suc (length pre + length ws)"
proof (induction ws arbitrary: pre)
  case Nil
  then show ?case by (simp add: skip_spaces.simps [of _ "length pre"] byte_at_def)
next
  case (Cons w ws)
  have ih: "skip_spaces (pre @ w # ws @ x # rest) (Suc (length pre)) = Suc (Suc (length pre + length ws))"
    using Cons.IH [of "pre @ [w]"] Cons.prems by simp
  have "skip_spaces (pre @ w # ws @ x # rest) (length pre) = skip_spaces (pre @ w # ws @ x # rest) (Suc (length pre))"
    using Cons.prems by (subst skip_spaces.simps) (simp add: byte_at_def nth_append)
  then show ?case using ih by simp
qed

text \<open>
  C8: For a separator that starts with a blank, \<open>matchSeparator\<close> skips
  the blanks of the input and then one byte more
  (\<open>while (isspace(inputLine[consumedInput++]));\<close> also steps over the first
  non-blank): the rest of the separator is compared from the byte after the
  first non-blank, so \<open>" ,"\<close> does not match \<open>"  ,5"\<close>.
\<close>

theorem matchSeparator_blank_skips_extra:
  assumes "separator p = 32 # sep" and "Separator \<in> flags s"
    and "inputLine s = pre @ ws @ x # rest" and "consumedInput s = length pre"
    and "\<forall>w\<in>set ws. isspace w" and "\<not> isspace x"
  shows "matchSeparator p s =
           (case sep_match sep (inputLine s) (Suc (length pre + length ws)) of
              None \<Rightarrow> (False, s)
            | Some ci \<Rightarrow> (True, s\<lparr>consumedInput := ci\<rparr>))"
  using assms skip_spaces_run [of ws x pre rest] by (simp add: matchSeparator_def)

end
