(* ===== verification/LockQueue.thy ===== *)
theory LockQueue
  imports Prelude "HOL-Library.Multiset"
begin

text \<open>
  The per-channel lock queue of \<open>devStream.c\<close> (\<open>busLockRequest\<close>, \<open>busUnlock\<close>,
  \<open>lockTimeout_cb\<close>). The queue is an intrusive singly linked list through the
  \<open>lockNext\<close> field of every stream, and the code edits it through pointers to
  links (\<open>streamPrivate_t **current\<close>), so the model keeps the heap explicit:
  streams are numbers, \<open>lockNext\<close> is a map on them, and a link is either the
  queue head \<open>lockQueue[channel]\<close> or the \<open>lockNext\<close> field of a stream. One
  channel is modelled; channels share no list cells. The loops walk links
  that may form a cycle (the source guards against one it has seen), so they
  are partial functions in the option monad.
\<close>

section \<open>State\<close>

record lockq =
  qhead :: "nat option"
  lockNext :: "nat \<Rightarrow> nat option"
  lockCancelled :: "nat \<Rightarrow> bool"
  haveBus :: "nat \<Rightarrow> bool"
  prio :: "nat \<Rightarrow> int"
  cbreq :: "nat list"

datatype link = Head | NextOf nat

definition read_link :: "lockq \<Rightarrow> link \<Rightarrow> nat option" where
  "read_link q l = (case l of Head \<Rightarrow> qhead q | NextOf i \<Rightarrow> lockNext q i)"

definition write_link :: "lockq \<Rightarrow> link \<Rightarrow> nat option \<Rightarrow> lockq" where
  "write_link q l v = (case l of Head \<Rightarrow> q\<lparr>qhead := v\<rparr> | NextOf i \<Rightarrow> q\<lparr>lockNext := (lockNext q)(i := v)\<rparr>)"

section \<open>busLockRequest\<close>

text \<open>
  The sweep that should remove cancelled entries behind the first one:
  on a cancelled entry it moves \<open>current\<close> into that entry and clears the
  entry's \<open>lockNext\<close>, which leaves the entry linked and cuts off the rest.
\<close>

partial_function (option) sweep_loop :: "lockq \<Rightarrow> link \<Rightarrow> link \<Rightarrow> lockq option" where
  "sweep_loop q cur first =
     (case read_link q cur of
        None \<Rightarrow> Some q
      | Some t \<Rightarrow>
          (if lockCancelled q t then
             (let q' = q\<lparr>lockNext := (lockNext q)(t := None)\<rparr>
              in if NextOf t = first then Some q' else sweep_loop q' (NextOf t) first)
           else if NextOf t = first then Some q else sweep_loop q (NextOf t) first))"

text \<open>Find the link to insert at: behind every entry of at least the same priority.\<close>

partial_function (option) insert_loop :: "lockq \<Rightarrow> nat \<Rightarrow> link \<Rightarrow> link \<Rightarrow> link option" where
  "insert_loop q s cur first =
     (case read_link q cur of
        None \<Rightarrow> Some cur
      | Some t \<Rightarrow>
          (if prio q s \<le> prio q t then
             (if NextOf t = first then Some (NextOf t) else insert_loop q s (NextOf t) first)
           else Some cur))"

definition busLockRequest :: "nat \<Rightarrow> lockq \<Rightarrow> lockq option" where
  "busLockRequest s q =
     (case (case qhead q of None \<Rightarrow> Some q | Some h \<Rightarrow> sweep_loop q (NextOf h) (NextOf h)) of
        None \<Rightarrow> None
      | Some q1 \<Rightarrow>
          (let q2 = (if lockNext q1 s \<noteq> None then q1\<lparr>lockNext := (lockNext q1)(s := None)\<rparr> else q1);
               q3 = q2\<lparr>lockCancelled := (lockCancelled q2)(s := False)\<rparr>
           in case qhead q3 of
                None \<Rightarrow> Some (q3\<lparr>qhead := Some s, haveBus := (haveBus q3)(s := True), cbreq := cbreq q3 @ [s]\<rparr>)
              | Some h \<Rightarrow>
                  (case insert_loop q3 s (NextOf h) (NextOf h) of
                     None \<Rightarrow> None
                   | Some cur \<Rightarrow>
                       Some (write_link (q3\<lparr>lockNext := (lockNext q3)(s := read_link q3 cur)\<rparr>) cur (Some s)))))"

section \<open>busUnlock and lockTimeout_cb\<close>

text \<open>Hand the bus to the first entry that is not cancelled, dropping cancelled ones.\<close>

partial_function (option) unlock_loop :: "lockq \<Rightarrow> lockq option" where
  "unlock_loop q =
     (case qhead q of
        None \<Rightarrow> Some q
      | Some t \<Rightarrow>
          (if \<not> lockCancelled q t then Some (q\<lparr>haveBus := (haveBus q)(t := True), cbreq := cbreq q @ [t]\<rparr>)
           else unlock_loop (q\<lparr>qhead := lockNext q t, lockNext := (lockNext q)(t := None)\<rparr>)))"

definition busUnlock :: "nat \<Rightarrow> lockq \<Rightarrow> lockq option" where
  "busUnlock s q =
     (let q1 = q\<lparr>haveBus := (haveBus q)(s := False)\<rparr>
      in if qhead q1 \<noteq> Some s then
           (if qhead q1 = None then Some (q1\<lparr>lockNext := (lockNext q1)(s := None)\<rparr>)
            else Some (q1\<lparr>lockCancelled := (lockCancelled q1)(s := True)\<rparr>))
         else unlock_loop (q1\<lparr>qhead := lockNext q1 s, lockNext := (lockNext q1)(s := None)\<rparr>))"

definition lockTimeout_cb :: "nat \<Rightarrow> lockq \<Rightarrow> lockq" where
  "lockTimeout_cb s q = q\<lparr>lockCancelled := (lockCancelled q)(s := True), cbreq := cbreq q @ [s]\<rparr>"

section \<open>The queue as a list\<close>

text \<open>
  \<open>qlist nx p xs\<close>: following \<open>lockNext\<close> from \<open>p\<close> visits \<open>xs\<close> and ends in
  \<open>NULL\<close> (the \<open>List\<close> predicate of \<open>HOL/Hoare/Heap.thy\<close>).
\<close>

primrec qlist :: "(nat \<Rightarrow> nat option) \<Rightarrow> nat option \<Rightarrow> nat list \<Rightarrow> bool" where
  "qlist nx p [] \<longleftrightarrow> p = None"
| "qlist nx p (a # as) \<longleftrightarrow> p = Some a \<and> qlist nx (nx a) as"

text \<open>What the sweep of \<open>busLockRequest\<close> leaves behind the head: everything up to and including the first cancelled entry.\<close>

fun sweep_list :: "(nat \<Rightarrow> bool) \<Rightarrow> nat list \<Rightarrow> nat list" where
  "sweep_list c [] = []"
| "sweep_list c (x # xs) = (if c x then [x] else x # sweep_list c xs)"

text \<open>Where a stream of priority \<open>prio s\<close> goes: behind all entries of at least its priority.\<close>

fun ins_prio :: "(nat \<Rightarrow> int) \<Rightarrow> nat \<Rightarrow> nat list \<Rightarrow> nat list" where
  "ins_prio p s [] = [s]"
| "ins_prio p s (x # xs) = (if p s \<le> p x then x # ins_prio p s xs else s # x # xs)"

declare sweep_loop.simps [code] insert_loop.simps [code] unlock_loop.simps [code]

definition bus_inv :: "lockq \<Rightarrow> bool" where
  "bus_inv q \<longleftrightarrow> (\<forall>x. haveBus q x \<longrightarrow> qhead q = Some x)"

section \<open>Runs of queue operations\<close>

text \<open>The calls the streams of one channel make on the queue, in the order they happen.\<close>

datatype lq_event = LockReq nat | Unlock nat | LockTmo nat

fun lq_step :: "lockq \<Rightarrow> lq_event \<Rightarrow> lockq option" where
  "lq_step q (LockReq s) = busLockRequest s q"
| "lq_step q (Unlock s) = busUnlock s q"
| "lq_step q (LockTmo s) = Some (lockTimeout_cb s q)"

fun lq_run :: "lockq \<Rightarrow> lq_event list \<Rightarrow> lockq option" where
  "lq_run q [] = Some q"
| "lq_run q (e # es) = (case lq_step q e of None \<Rightarrow> None | Some q1 \<Rightarrow> lq_run q1 es)"

section \<open>The queue as a list: lemmas\<close>

lemma qlist_None [simp]: "qlist nx None as \<longleftrightarrow> as = []"
  by (cases as) simp_all

lemma qlist_Some [simp]: "qlist nx (Some a) as \<longleftrightarrow> (\<exists>bs. as = a # bs \<and> qlist nx (nx a) bs)"
  by (cases as) auto

lemma qlist_upd [simp]: "a \<notin> set as \<Longrightarrow> qlist (nx(a := v)) p as = qlist nx p as"
  by (induction as arbitrary: p) auto

lemma qlist_unique: "qlist nx p as \<Longrightarrow> qlist nx p bs \<Longrightarrow> as = bs"
proof (induction as arbitrary: p bs)
  case Nil
  then show ?case by (cases bs) simp_all
next
  case (Cons a as)
  then show ?case by (cases bs) auto
qed

lemma qlist_app_Cons: "qlist nx p (us @ a # vs) \<Longrightarrow> qlist nx (nx a) vs"
  by (induction us arbitrary: p) auto

lemma qlist_distinct: "qlist nx p as \<Longrightarrow> distinct as"
proof (induction as arbitrary: p)
  case (Cons a as)
  then have tl: "qlist nx (nx a) as" by simp
  have "a \<notin> set as"
  proof
    assume "a \<in> set as"
    then obtain us vs where "as = us @ a # vs" by (meson split_list)
    with tl have "qlist nx (nx a) vs" by (blast intro: qlist_app_Cons)
    with tl \<open>as = us @ a # vs\<close> show False using qlist_unique by fastforce
  qed
  with Cons.IH [OF tl] show ?case by simp
qed simp

lemma read_link_NextOf [simp]: "read_link q (NextOf i) = lockNext q i"
  by (simp add: read_link_def)

lemma read_link_Head [simp]: "read_link q Head = qhead q"
  by (simp add: read_link_def)

lemma set_sweep_list: "set (sweep_list c xs) \<subseteq> set xs"
  by (induction xs) auto

lemma find_in_set: "find c xs = Some y \<Longrightarrow> y \<in> set xs"
  by (induction xs) (auto split: if_splits)

lemma sweep_loop_path:
  "qlist (lockNext q) (read_link q cur) xs \<Longrightarrow> h \<notin> set xs \<Longrightarrow>
   sweep_loop q cur (NextOf h) =
     Some (case find (lockCancelled q) xs of None \<Rightarrow> q | Some c \<Rightarrow> q\<lparr>lockNext := (lockNext q)(c := None)\<rparr>)"
proof (induction xs arbitrary: cur)
  case Nil
  then show ?case by (simp add: sweep_loop.simps [of q cur])
next
  case (Cons x xs)
  then have rx: "read_link q cur = Some x" and px: "qlist (lockNext q) (lockNext q x) xs" and hx: "x \<noteq> h"
    by auto
  show ?case
  proof (cases "lockCancelled q x")
    case True
    then show ?thesis using rx hx
      by (simp add: sweep_loop.simps [of q cur]
                    sweep_loop.simps [of "q\<lparr>lockNext := (lockNext q)(x := None)\<rparr>" "NextOf x"])
  next
    case False
    then show ?thesis using rx hx Cons.IH [of "NextOf x"] px Cons.prems(2)
      by (simp add: sweep_loop.simps [of q cur])
  qed
qed

lemma qlist_sweep:
  "qlist nx p xs \<Longrightarrow> qlist (case find c xs of None \<Rightarrow> nx | Some y \<Rightarrow> nx(y := None)) p (sweep_list c xs)"
proof (induction xs arbitrary: p)
  case (Cons x xs)
  show ?case
  proof (cases "c x")
    case False
    have "x \<notin> set xs" using qlist_distinct [OF Cons.prems] by simp
    then have "find c xs = Some y \<Longrightarrow> x \<noteq> y" for y by (auto dest: find_in_set)
    then show ?thesis using False Cons by (auto split: option.splits)
  qed (use Cons.prems in simp)
qed simp

lemma insert_loop_path:
  "qlist (lockNext q) (lockNext q y) xs \<Longrightarrow> y \<notin> set xs \<Longrightarrow> h \<notin> set xs \<Longrightarrow> s \<notin> set xs \<Longrightarrow> s \<noteq> y \<Longrightarrow>
   \<exists>z. z \<in> set (y # xs) \<and> insert_loop q s (NextOf y) (NextOf h) = Some (NextOf z) \<and>
       qlist ((lockNext q)(s := lockNext q z, z := Some s)) (Some y) (y # ins_prio (prio q) s xs)"
proof (induction xs arbitrary: y)
  case Nil
  then show ?case by (simp add: insert_loop.simps [of q s "NextOf y"])
next
  case (Cons x xs)
  then have yx: "lockNext q y = Some x" and px: "qlist (lockNext q) (lockNext q x) xs"
    and hx: "x \<noteq> h" and xn: "x \<notin> set xs" using qlist_distinct [of "lockNext q" "lockNext q y" "x # xs"] by auto
  show ?case
  proof (cases "prio q s \<le> prio q x")
    case True
    obtain z where z: "z \<in> set (x # xs)" "insert_loop q s (NextOf x) (NextOf h) = Some (NextOf z)"
      "qlist ((lockNext q)(s := lockNext q z, z := Some s)) (Some x) (x # ins_prio (prio q) s xs)"
    proof -
      have "h \<notin> set xs" "s \<notin> set xs" "s \<noteq> x" using Cons.prems by auto
      then show ?thesis using Cons.IH [OF px xn] that by blast
    qed
    have "y \<noteq> z" using z(1) Cons.prems(2) by auto
    then have "((lockNext q)(s := lockNext q z, z := Some s)) y = Some x" using yx Cons.prems(5) by simp
    then have "qlist ((lockNext q)(s := lockNext q z, z := Some s)) (Some y) (y # ins_prio (prio q) s (x # xs))"
      using z(3) True by (simp only: ins_prio.simps if_True qlist.simps)
    moreover have "insert_loop q s (NextOf y) (NextOf h) = Some (NextOf z)"
      using z(2) True yx hx by (simp add: insert_loop.simps [of q s "NextOf y"])
    moreover have "z \<in> set (y # x # xs)" using z(1) by simp
    ultimately show ?thesis by (intro exI [of _ z] conjI)
  next
    case False
    have sy: "s \<notin> set xs" "y \<notin> set xs" "s \<noteq> x" "y \<noteq> x" "s \<noteq> y" using Cons.prems by auto
    let ?nx = "(lockNext q)(s := lockNext q y, y := Some s)"
    have "?nx x = lockNext q x" using sy by simp
    moreover have "qlist ?nx (lockNext q x) xs" using px sy(1,2) by (simp only: qlist_upd not_False_eq_True)
    ultimately have "qlist ?nx (?nx x) xs" by simp
    then have "qlist ?nx (Some y) (y # s # x # xs)" using yx sy by simp
    then have "qlist ?nx (Some y) (y # ins_prio (prio q) s (x # xs))" using False by simp
    moreover have "insert_loop q s (NextOf y) (NextOf h) = Some (NextOf y)"
      using False yx by (simp add: insert_loop.simps [of q s "NextOf y"])
    moreover have "y \<in> set (y # x # xs)" by simp
    ultimately show ?thesis by (intro exI [of _ y] conjI)
  qed
qed

text \<open>The chain \<open>busLockRequest\<close> leaves behind the head, and the fields it keeps.\<close>

lemma busLockRequest_chain:
  assumes ql: "qlist (lockNext q) (qhead q) (h # xs)" and s: "s \<notin> set (h # xs)"
  shows "\<exists>q'. busLockRequest s q = Some q' \<and>
           qlist (lockNext q') (qhead q') (h # ins_prio (prio q) s (sweep_list (lockCancelled q) xs)) \<and>
           haveBus q' = haveBus q \<and> cbreq q' = cbreq q \<and> \<not> lockCancelled q' s \<and> prio q' = prio q"
proof -
  have hd: "qhead q = Some h" and px: "qlist (lockNext q) (lockNext q h) xs" using ql by auto
  have hx: "h \<notin> set xs" using qlist_distinct [OF ql] by simp
  define nx1 where "nx1 = (case find (lockCancelled q) xs of None \<Rightarrow> lockNext q | Some c \<Rightarrow> (lockNext q)(c := None))"
  define q1 where "q1 = q\<lparr>lockNext := nx1\<rparr>"
  have sw: "sweep_loop q (NextOf h) (NextOf h) = Some q1"
    using sweep_loop_path [of q "NextOf h" xs h] px hx
    by (simp add: q1_def nx1_def split: option.splits)
  have nh: "nx1 h = lockNext q h" using hx by (auto simp: nx1_def split: option.splits dest: find_in_set)
  define ys where "ys = sweep_list (lockCancelled q) xs"
  have py: "qlist nx1 (nx1 h) ys" using qlist_sweep [OF px, of "lockCancelled q"] nh by (simp add: nx1_def ys_def)
  have ysub: "set ys \<subseteq> set xs" using set_sweep_list by (simp add: ys_def)
  define q3 where "q3 = q1\<lparr>lockNext := nx1(s := None), lockCancelled := (lockCancelled q)(s := False)\<rparr>"
  have q3_eq: "(if lockNext q1 s \<noteq> None then q1\<lparr>lockNext := (lockNext q1)(s := None)\<rparr> else q1)
                 \<lparr>lockCancelled := (lockCancelled (if lockNext q1 s \<noteq> None
                                     then q1\<lparr>lockNext := (lockNext q1)(s := None)\<rparr> else q1))(s := False)\<rparr> = q3"
    by (cases "nx1 s") (simp_all add: q1_def q3_def fun_upd_idem)
  have s3: "s \<notin> set ys" "h \<notin> set ys" "s \<noteq> h" using s hx ysub by auto
  have p3: "qlist (lockNext q3) (lockNext q3 h) ys"
  proof -
    have "qlist (nx1(s := None)) (nx1 h) ys" using py s3(1) by (simp only: qlist_upd not_False_eq_True)
    then show ?thesis using s3(3) by (simp add: q3_def q1_def)
  qed
  obtain z where z: "insert_loop q3 s (NextOf h) (NextOf h) = Some (NextOf z)"
    "qlist ((lockNext q3)(s := lockNext q3 z, z := Some s)) (Some h) (h # ins_prio (prio q3) s ys)"
    using insert_loop_path [OF p3 s3(2) s3(2) s3(1) s3(3)] by blast
  have q3h: "qhead q3 = Some h" using hd by (simp add: q3_def q1_def)
  define q' where "q' = write_link (q3\<lparr>lockNext := (lockNext q3)(s := read_link q3 (NextOf z))\<rparr>) (NextOf z) (Some s)"
  have "busLockRequest s q = Some q'"
    unfolding busLockRequest_def hd option.case sw Let_def q3_eq q3h z(1) q'_def by (rule refl)
  moreover have "qlist (lockNext q') (qhead q') (h # ins_prio (prio q) s ys)"
    using z(2) q3h by (simp add: q'_def write_link_def q3_def q1_def)
  moreover have "haveBus q' = haveBus q \<and> cbreq q' = cbreq q \<and> \<not> lockCancelled q' s \<and> prio q' = prio q"
    by (simp add: q'_def write_link_def q3_def q1_def)
  ultimately show ?thesis by (simp add: ys_def)
qed

text \<open>
  C6: On a well-formed queue (a \<open>NULL\<close>-terminated chain from the head),
  \<open>busLockRequest\<close> of a stream that is not queued returns, keeps the head,
  and leaves the chain \<open>h # ins_prio (sweep_list xs)\<close>: the sweep keeps the
  entries up to and including the first cancelled one and cuts off all that
  follow it, and the new stream goes behind every entry of at least its
  priority.
\<close>

theorem busLockRequest_queue:
  assumes "qlist (lockNext q) (qhead q) (h # xs)" and "s \<notin> set (h # xs)"
  shows "\<exists>q'. busLockRequest s q = Some q' \<and>
           qlist (lockNext q') (qhead q') (h # ins_prio (prio q) s (sweep_list (lockCancelled q) xs)) \<and>
           haveBus q' = haveBus q \<and> cbreq q' = cbreq q \<and> \<not> lockCancelled q' s"
  using busLockRequest_chain [OF assms] by blast

lemma unlock_loop_path:
  "qlist (lockNext q) (qhead q) xs \<Longrightarrow>
   \<exists>q'. unlock_loop q = Some q' \<and> qlist (lockNext q') (qhead q') (dropWhile (lockCancelled q) xs) \<and>
        cbreq q' = cbreq q @ take 1 (dropWhile (lockCancelled q) xs) \<and>
        haveBus q' = (\<lambda>x. haveBus q x \<or> qhead q' = Some x)"
proof (induction xs arbitrary: q)
  case Nil
  then show ?case by (simp add: unlock_loop.simps [of q])
next
  case (Cons t xs)
  then have hd: "qhead q = Some t" and px: "qlist (lockNext q) (lockNext q t) xs" by auto
  have tx: "t \<notin> set xs" using qlist_distinct [OF Cons.prems] by simp
  show ?case
  proof (cases "lockCancelled q t")
    case True
    define q1 where "q1 = q\<lparr>qhead := lockNext q t, lockNext := (lockNext q)(t := None)\<rparr>"
    have "qlist (lockNext q1) (qhead q1) xs"
      using px tx by (simp add: q1_def)
    then obtain q' where "unlock_loop q1 = Some q'" "qlist (lockNext q') (qhead q') (dropWhile (lockCancelled q1) xs)"
      "cbreq q' = cbreq q1 @ take 1 (dropWhile (lockCancelled q1) xs)"
      "haveBus q' = (\<lambda>x. haveBus q1 x \<or> qhead q' = Some x)"
      using Cons.IH by blast
    moreover have "unlock_loop q = unlock_loop q1"
      using hd True by (simp add: unlock_loop.simps [of q] q1_def)
    moreover have "haveBus q1 = haveBus q" "lockCancelled q1 = lockCancelled q" "cbreq q1 = cbreq q"
      by (simp_all add: q1_def)
    ultimately show ?thesis using True by simp
  next
    case False
    then show ?thesis using hd Cons.prems by (auto simp: unlock_loop.simps [of q] fun_eq_iff)
  qed
qed

text \<open>
  C7: When the head of a well-formed queue unlocks, the cancelled entries
  behind it are dropped and the first entry that is not cancelled becomes
  the head, gets \<open>haveBus\<close> and its callback is requested; if none is left
  the queue is empty.
\<close>

theorem busUnlock_next:
  assumes ql: "qlist (lockNext q) (qhead q) (s # xs)"
  shows "\<exists>q'. busUnlock s q = Some q' \<and> qlist (lockNext q') (qhead q') (dropWhile (lockCancelled q) xs) \<and>
           cbreq q' = cbreq q @ take 1 (dropWhile (lockCancelled q) xs) \<and>
           haveBus q' = (\<lambda>x. (haveBus q x \<and> x \<noteq> s) \<or> qhead q' = Some x)"
proof -
  have hd: "qhead q = Some s" and px: "qlist (lockNext q) (lockNext q s) xs" using ql by auto
  have sx: "s \<notin> set xs" using qlist_distinct [OF ql] by simp
  define q2 where "q2 = q\<lparr>haveBus := (haveBus q)(s := False), qhead := lockNext q s, lockNext := (lockNext q)(s := None)\<rparr>"
  have "qlist (lockNext q2) (qhead q2) xs" using px sx by (simp add: q2_def)
  then obtain q' where "unlock_loop q2 = Some q'" "qlist (lockNext q') (qhead q') (dropWhile (lockCancelled q2) xs)"
      "cbreq q' = cbreq q2 @ take 1 (dropWhile (lockCancelled q2) xs)"
      "haveBus q' = (\<lambda>x. haveBus q2 x \<or> qhead q' = Some x)"
    using unlock_loop_path by blast
  moreover have "busUnlock s q = unlock_loop q2" using hd by (simp add: busUnlock_def q2_def)
  moreover have "haveBus q2 = (haveBus q)(s := False)" "lockCancelled q2 = lockCancelled q" "cbreq q2 = cbreq q"
    by (simp_all add: q2_def)
  ultimately show ?thesis by auto
qed

lemma sweep_loop_frame:
  "sweep_loop q cur first = Some q' \<Longrightarrow> qhead q' = qhead q \<and> haveBus q' = haveBus q \<and> cbreq q' = cbreq q"
  by (erule sweep_loop.raw_induct [where P = "\<lambda>q cur first q'. qhead q' = qhead q \<and> haveBus q' = haveBus q \<and> cbreq q' = cbreq q", rotated])
     (auto simp: Let_def split: option.splits if_splits)

lemma insert_loop_NextOf:
  "insert_loop q s cur first = Some l \<Longrightarrow> cur \<noteq> Head \<longrightarrow> l \<noteq> Head"
  by (erule insert_loop.raw_induct [where P = "\<lambda>q s cur first l. cur \<noteq> Head \<longrightarrow> l \<noteq> Head", rotated])
     (auto split: option.splits if_splits)

lemma unlock_loop_bus_inv:
  "unlock_loop q = Some q' \<Longrightarrow> (\<forall>x. \<not> haveBus q x) \<longrightarrow> bus_inv q'"
  by (erule unlock_loop.raw_induct [where P = "\<lambda>q q'. (\<forall>x. \<not> haveBus q x) \<longrightarrow> bus_inv q'", rotated])
     (auto simp: bus_inv_def split: option.splits if_splits)

lemma busLockRequest_bus_inv:
  assumes inv: "bus_inv q" and r: "busLockRequest s q = Some q'"
  shows "bus_inv q'"
proof (cases "qhead q")
  case None
  then have "q' = q\<lparr>lockNext := (if lockNext q s \<noteq> None then (lockNext q)(s := None) else lockNext q),
                     lockCancelled := (lockCancelled q)(s := False),
                     qhead := Some s, haveBus := (haveBus q)(s := True), cbreq := cbreq q @ [s]\<rparr>"
    using r by (auto simp: busLockRequest_def Let_def)
  then show ?thesis using inv None by (auto simp: bus_inv_def)
next
  case (Some h)
  then obtain q1 where sw: "sweep_loop q (NextOf h) (NextOf h) = Some q1"
    using r by (auto simp: busLockRequest_def split: option.splits)
  have fr: "qhead q1 = qhead q" "haveBus q1 = haveBus q" using sweep_loop_frame [OF sw] by auto
  define q3 where "q3 = (if lockNext q1 s \<noteq> None then q1\<lparr>lockNext := (lockNext q1)(s := None)\<rparr> else q1)
                        \<lparr>lockCancelled := (lockCancelled (if lockNext q1 s \<noteq> None
                           then q1\<lparr>lockNext := (lockNext q1)(s := None)\<rparr> else q1))(s := False)\<rparr>"
  have q3: "qhead q3 = Some h" "haveBus q3 = haveBus q" using fr Some by (simp_all add: q3_def)
  obtain cur where ins: "insert_loop q3 s (NextOf h) (NextOf h) = Some cur"
    and q': "q' = write_link (q3\<lparr>lockNext := (lockNext q3)(s := read_link q3 cur)\<rparr>) cur (Some s)"
  proof -
    have "busLockRequest s q = (case insert_loop q3 s (NextOf h) (NextOf h) of None \<Rightarrow> None
            | Some cur \<Rightarrow> Some (write_link (q3\<lparr>lockNext := (lockNext q3)(s := read_link q3 cur)\<rparr>) cur (Some s)))"
      unfolding busLockRequest_def Some option.case sw Let_def q3_def [symmetric] q3(1) by (rule refl)
    then show ?thesis using r that by (auto split: option.splits)
  qed
  have "cur \<noteq> Head" using insert_loop_NextOf [OF ins] by simp
  then obtain i where "cur = NextOf i" by (cases cur) auto
  then show ?thesis using inv q' q3 Some by (simp add: write_link_def bus_inv_def)
qed

lemma busUnlock_bus_inv:
  assumes inv: "bus_inv q" and r: "busUnlock s q = Some q'"
  shows "bus_inv q'"
proof (cases "qhead q = Some s")
  case True
  have "\<forall>x. \<not> ((haveBus q)(s := False)) x" using inv True by (auto simp: bus_inv_def)
  then show ?thesis using r True unlock_loop_bus_inv by (auto simp: busUnlock_def)
next
  case False
  then show ?thesis using r inv by (auto simp: busUnlock_def bus_inv_def Let_def split: if_splits)
qed

lemma lockTimeout_bus_inv: "bus_inv q \<Longrightarrow> bus_inv (lockTimeout_cb s q)"
  by (simp add: lockTimeout_cb_def bus_inv_def)

lemma ins_prio_mset: "mset (ins_prio p s xs) = add_mset s (mset xs)"
  by (induction xs) auto

lemma ins_prio_set: "set (ins_prio p s xs) = insert s (set xs)"
  using arg_cong [OF ins_prio_mset [of p s xs], of set_mset] by simp

text \<open>
  Inserting by \<open>ins_prio\<close> keeps a queue ordered by non-increasing
  priority ordered and adds exactly the new stream.
\<close>

lemma ins_prio_sorted:
  "sorted_wrt (\<lambda>a b. p b \<le> p a) xs \<Longrightarrow>
   sorted_wrt (\<lambda>a b. p b \<le> p a) (ins_prio p s xs) \<and> mset (ins_prio p s xs) = add_mset s (mset xs) \<and>
   (\<forall>x \<in> set (takeWhile (\<lambda>x. x \<noteq> s) (ins_prio p s xs)). p s \<le> p x)"
proof (induction xs)
  case (Cons x xs)
  then show ?case by (auto simp: ins_prio_set ins_prio_mset)
qed simp

lemma ins_prio_split: "ins_prio p s xs = takeWhile (\<lambda>x. p s \<le> p x) xs @ s # dropWhile (\<lambda>x. p s \<le> p x) xs"
  by (induction xs) auto

lemma sorted_dropWhile_below:
  fixes p :: "nat \<Rightarrow> int"
  shows "sorted_wrt (\<lambda>a b. p b \<le> p a) xs \<Longrightarrow> \<forall>x \<in> set (dropWhile (\<lambda>x. p s \<le> p x) xs). p x < p s"
proof (induction xs)
  case (Cons x xs)
  show ?case
  proof (cases "p s \<le> p x")
    case False
    then have "p x < p s" by simp
    moreover have "\<forall>y \<in> set xs. p y \<le> p x" using Cons.prems by simp
    ultimately show ?thesis using False by fastforce
  qed (use Cons in auto)
qed simp

lemma sweep_list_id: "\<forall>x \<in> set xs. \<not> c x \<Longrightarrow> sweep_list c xs = xs"
  by (induction xs) auto

text \<open>
  C14: On a queue whose waiters are none cancelled and ordered by
  non-increasing priority, \<open>busLockRequest\<close> of a new stream keeps the head
  and puts the stream behind every waiter of at least its priority and in
  front of every waiter of lower priority: the queue stays ordered, waiters
  of equal priority are served first come, first served, and no waiter is
  lost.
\<close>

theorem busLockRequest_sorted:
  assumes "qlist (lockNext q) (qhead q) (h # xs)" "s \<notin> set (h # xs)"
      and "\<forall>x \<in> set xs. \<not> lockCancelled q x" "sorted_wrt (\<lambda>a b. prio q b \<le> prio q a) xs"
  shows "\<exists>q' as bs. busLockRequest s q = Some q' \<and> qlist (lockNext q') (qhead q') (h # as @ s # bs)
           \<and> as @ bs = xs \<and> (\<forall>x \<in> set as. prio q s \<le> prio q x) \<and> (\<forall>x \<in> set bs. prio q x < prio q s)
           \<and> sorted_wrt (\<lambda>a b. prio q b \<le> prio q a) (as @ s # bs)"
proof -
  obtain q' where r: "busLockRequest s q = Some q'"
      and ch: "qlist (lockNext q') (qhead q') (h # ins_prio (prio q) s (sweep_list (lockCancelled q) xs))"
    using busLockRequest_chain [OF assms(1,2)] by blast
  let ?as = "takeWhile (\<lambda>x. prio q s \<le> prio q x) xs" and ?bs = "dropWhile (\<lambda>x. prio q s \<le> prio q x) xs"
  have i: "ins_prio (prio q) s (sweep_list (lockCancelled q) xs) = ?as @ s # ?bs"
    using sweep_list_id [OF assms(3)] ins_prio_split by simp
  have "sorted_wrt (\<lambda>a b. prio q b \<le> prio q a) (?as @ s # ?bs)"
    using ins_prio_sorted [OF assms(4), of s] ins_prio_split by metis
  moreover have "\<forall>x \<in> set ?as. prio q s \<le> prio q x" by (auto dest: set_takeWhileD)
  moreover have "\<forall>x \<in> set ?bs. prio q x < prio q s" using sorted_dropWhile_below [OF assms(4)] .
  ultimately show ?thesis using r ch i by (intro exI [of _ q'] exI [of _ ?as] exI [of _ ?bs]) simp
qed

lemma lq_step_bus_inv: "bus_inv q \<Longrightarrow> lq_step q e = Some q' \<Longrightarrow> bus_inv q'"
  by (cases e) (auto intro: busLockRequest_bus_inv busUnlock_bus_inv lockTimeout_bus_inv)

lemma lq_run_preserves_bus_inv: "bus_inv q \<Longrightarrow> lq_run q es = Some q' \<Longrightarrow> bus_inv q'"
proof (induction es arbitrary: q)
  case (Cons e es)
  then obtain q1 where "lq_step q e = Some q1" "lq_run q1 es = Some q'" by (auto split: option.splits)
  with Cons show ?case by (blast intro: lq_step_bus_inv)
qed simp

lemma bus_inv_unique: "bus_inv q \<Longrightarrow> haveBus q x \<Longrightarrow> haveBus q y \<Longrightarrow> x = y"
  unfolding bus_inv_def by (metis option.inject)

text \<open>
  C5: Whatever sequence of lock requests, unlocks and lock timeouts the
  streams of a channel make, only the stream at the head of the queue has
  \<open>haveBus\<close> set, so at most one stream owns the bus (spec, section 8).
\<close>

theorem lq_run_bus_inv:
  "bus_inv q \<Longrightarrow> lq_run q es = Some q' \<Longrightarrow> bus_inv q' \<and> (\<forall>x y. haveBus q' x \<and> haveBus q' y \<longrightarrow> x = y)"
  using lq_run_preserves_bus_inv bus_inv_unique by blast

end
