(* ===== verification/Converters.thy ===== *)
theory Converters
  imports Prelude "HOL-Library.Signed_Division"
begin

unbundle bit_operations_syntax

text \<open>
  The byte-level converters of the EPICS 3.13 device support
  (\<open>src/streamDeviceApp/src/devStream.c\<close>): binary \<open>%b\<close>, raw \<open>%r\<close>, packed
  BCD \<open>%D\<close> and enumerations \<open>%{\<close> in \<open>devStreamScanf\<close> and
  \<open>devStreamPrintf\<close>, and the separator functions \<open>devStreamScanSep\<close> and
  \<open>devStreamPrintSep\<close>. This code targets vxWorks, where \<open>int\<close> and \<open>long\<close>
  are 32-bit two's complement: \<open>long\<close> is \<open>32 word\<close>, shifts and products
  wrap, \<open>>>\<close> on a signed value is arithmetic, and \<open>%\<close>/\<open>/\<close> truncate
  (\<open>smod\<close>/\<open>sdiv\<close>). A shift by 32 or more, or by a negative count, is
  undefined in C and is the result \<open>Undefined\<close>; so is a read or write before
  the I/O buffer. Conversions that call the C library (\<open>%d\<close>, \<open>%f\<close>, \<open>%s\<close>
  through \<open>sscanf\<close>/\<open>sprintf\<close>) are not modelled.
\<close>

section \<open>Formats, codes and results\<close>

type_synonym long = "32 word"

text \<open>The flags of \<open>format_t\<close> (\<open>FORMAT_FLAG_*\<close> of \<open>devStream.h\<close>).\<close>

datatype dflag = FLeft | FSign | FSpace | FAlt | FZero | FSkip

record dformat =
  dconv :: char
  dflags :: "dflag set"
  dwidth :: nat
  dprec :: int

text \<open>
  A byte of a compiled protocol string: an ordinary byte, a byte escaped by
  \<open>ESC\<close> (taken literally whatever its value), the wildcard \<open>SKIP\<close>, and the
  command codes \<open>IN\<close>, \<open>OUT\<close> and the terminating \<open>NUL\<close>.
\<close>

datatype ctok = CByte byte | CLit byte | CSkip | CIn | COut | CNul

text \<open>
  The alarms \<open>stream->status\<close> takes (\<open>CALC_ALARM\<close>, \<open>SOFT_ALARM\<close>,
  \<open>HW_LIMIT_ALARM\<close>, \<open>READ_ALARM\<close>, \<open>WRITE_ALARM\<close>, \<open>TIMEOUT_ALARM\<close>,
  \<open>COMM_ALARM\<close>), and \<open>Undefined\<close> for undefined behaviour in C.
\<close>

datatype dev_error = CalcAlarm | SoftAlarm | HwLimitAlarm | Undefined
  | ReadAlarm | WriteAlarm | TimeoutAlarm | CommAlarm

text \<open>C's \<open>/\<close> and \<open>%\<close> on \<open>long\<close>: truncating division of the signed values.\<close>

definition ldiv :: "long \<Rightarrow> long \<Rightarrow> long" where
  "ldiv a b = word_of_int (sint a sdiv sint b)"

definition lmod :: "long \<Rightarrow> long \<Rightarrow> long" where
  "lmod a b = word_of_int (sint a smod sint b)"

section \<open>Binary: \<open>%b\<close>\<close>

text \<open>\<open>1 << k\<close> on a 32-bit \<open>int\<close>.\<close>

definition shl1 :: "nat \<Rightarrow> long" where
  "shl1 k = push_bit k 1"

text \<open>\<open>while (prec && (raw & (1 << (prec - 1))) == 0) prec--;\<close>\<close>

fun bin_prec :: "long \<Rightarrow> nat \<Rightarrow> nat" where
  "bin_prec raw 0 = 0"
| "bin_prec raw (Suc p) = (if raw AND shl1 p = 0 then bin_prec raw p else Suc p)"

text \<open>\<open>while (prec--) buffer[len++] = (raw & (1 << prec)) ? '1' : '0';\<close>\<close>

fun bin_digits :: "long \<Rightarrow> nat \<Rightarrow> byte list" where
  "bin_digits raw 0 = []"
| "bin_digits raw (Suc p) = (if raw AND shl1 p \<noteq> 0 then 49 else 48) # bin_digits raw p"

definition print_b :: "dformat \<Rightarrow> long \<Rightarrow> nat \<Rightarrow> dev_error + byte list" where
  "print_b f raw buffersize =
     (let p0 = (if dprec f = -1 then int (bin_prec raw 32) else dprec f);
          p = (if p0 = 0 then 1 else p0);
          width = max p (int (dwidth f))
      in if int buffersize \<le> width then Inl HwLimitAlarm
      else if p < 0 \<or> 32 < p then Inl Undefined
      else
        (let pad = (if FLeft \<notin> dflags f
                    then replicate (nat width - nat p) (if FZero \<in> dflags f then 48 else 32) else []);
             ds = bin_digits raw (nat p)
         in Inr (pad @ ds @ replicate (nat width - length (pad @ ds)) 32)))"

text \<open>The digit loop of \<open>%b\<close> input: \<open>while (width-- && (source[len]=='0' || source[len]=='1'))\<close>.\<close>

function bin_scan_loop :: "byte list \<Rightarrow> nat \<Rightarrow> int \<Rightarrow> long \<Rightarrow> long \<times> nat" where
  "bin_scan_loop src len w raw =
     (if w \<noteq> 0 \<and> (byte_at src len = 48 \<or> byte_at src len = 49)
      then bin_scan_loop src (Suc len) (w - 1) (push_bit 1 raw OR (if byte_at src len = 49 then 1 else 0))
      else (raw, len))"
  by pat_completeness auto
termination
proof (relation "measure (\<lambda>(src, len, w, raw). length src - len)")
  fix src :: "byte list" and len :: nat and w :: int
  assume "w \<noteq> 0 \<and> (byte_at src len = 48 \<or> byte_at src len = 49)"
  then have "byte_at src len \<noteq> 0" by auto
  then have "len < length src" by (rule byte_at_nonzero_less)
  then show "((src, Suc len, w - 1, push_bit 1 raw OR (if byte_at src len = 49 then 1 else 0)), (src, len, w, raw))
             \<in> measure (\<lambda>(src, len, w, raw). length src - len)" for raw :: long by simp
qed simp

text \<open>\<open>while (isspace(source[++len]));\<close> from \<open>len = -1\<close>: the first non-blank index.\<close>

function first_nonblank :: "byte list \<Rightarrow> nat \<Rightarrow> nat" where
  "first_nonblank src i = (if isspace (byte_at src i) then first_nonblank src (Suc i) else i)"
  by pat_completeness auto
termination
proof (relation "measure (\<lambda>(src, i). length src - i)")
  fix src i
  assume "isspace (byte_at src i)"
  then have "byte_at src i \<noteq> 0" using isspace_0 by metis
  then have "i < length src" by (rule byte_at_nonzero_less)
  then show "((src, Suc i), (src, i)) \<in> measure (\<lambda>(src, i). length src - i)" by simp
qed simp

text \<open>The number of digits \<open>%b\<close> prints under the default precision.\<close>

definition bin_width :: "long \<Rightarrow> nat" where
  "bin_width raw = max 1 (bin_prec raw 32)"

text \<open>\<open>%b\<close> input: \<open>Inr (value, consumed)\<close>, the value \<open>None\<close> under \<open>*\<close> (skip).\<close>

definition scan_b :: "dformat \<Rightarrow> byte list \<Rightarrow> dev_error + (long option \<times> nat)" where
  "scan_b f src =
     (let w = (if dwidth f = 0 then -1 else int (dwidth f));
          i = first_nonblank src 0
      in if byte_at src i \<noteq> 48 \<and> byte_at src i \<noteq> 49 then Inl CalcAlarm
         else (let (raw, len) = bin_scan_loop src i w 0
               in Inr (if FSkip \<in> dflags f then None else Some raw, len)))"

section \<open>Enumerations: \<open>%{\<close>\<close>

text \<open>
  The input loop over the alternatives \<open>a|b|...}\<close> of the protocol code.
  \<open>m\<close> is \<open>match\<close>: 1 while the current alternative still matches, 0 once
  it failed (the next \<open>|\<close> starts the next alternative at \<open>len = 0\<close> and
  increments \<open>raw\<close>), and above 1 once an alternative has matched. The result
  is \<open>(match, raw, len)\<close> and the code after the closing brace.
\<close>

fun enum_scan_loop :: "byte list \<Rightarrow> ctok list \<Rightarrow> nat \<Rightarrow> long \<Rightarrow> nat \<Rightarrow> dev_error + (nat \<times> long \<times> nat \<times> ctok list)" where
  "enum_scan_loop src [] m raw len = Inl SoftAlarm"
| "enum_scan_loop src (t # code) m raw len =
     (case t of
        CByte c \<Rightarrow>
          if c = 125 then Inr (m, raw, len, code)
          else if c = 124 then
            (if m = 0 then enum_scan_loop src code 1 (raw + 1) 0
             else enum_scan_loop src code (Suc m) raw len)
          else enum_scan_loop src code (if m = 1 \<and> byte_at src len \<noteq> c then 0 else m) raw
                 (if m = 1 then Suc len else len)
      | CLit c \<Rightarrow>
          enum_scan_loop src code (if m = 1 \<and> byte_at src len \<noteq> c then 0 else m) raw
            (if m = 1 then Suc len else len)
      | CSkip \<Rightarrow> enum_scan_loop src code m raw (if m = 1 then Suc len else len)
      | _ \<Rightarrow> Inl SoftAlarm)"

definition scan_enum :: "dformat \<Rightarrow> ctok list \<Rightarrow> byte list \<Rightarrow> dev_error + (long option \<times> nat \<times> ctok list)" where
  "scan_enum f code src =
     (case enum_scan_loop src code 1 0 0 of
        Inl e \<Rightarrow> Inl e
      | Inr (m, raw, len, rest) \<Rightarrow>
          if m = 0 then Inl CalcAlarm
          else Inr (if FSkip \<in> dflags f then None else Some raw, len, rest))"

text \<open>
  The output loop: the bytes of alternative number \<open>raw\<close> are stored at
  \<open>buffer[width++]\<close>. The \<open>break\<close> under \<open>width >= buffersize\<close> leaves
  only the \<open>switch\<close>, so the loop goes on storing. The \<open>|\<close> that ends
  alternative \<open>raw\<close> stores a 0 at \<open>buffer[width]\<close>. The result is the
  bytes stored, whether that 0 was stored, and the code after the closing
  brace (\<open>None\<close>: unterminated).
\<close>

fun enum_print_loop :: "long \<Rightarrow> ctok list \<Rightarrow> long \<Rightarrow> byte list \<Rightarrow> bool \<Rightarrow> byte list \<times> bool \<times> ctok list option" where
  "enum_print_loop raw [] i buf z = (buf, z, None)"
| "enum_print_loop raw (t # code) i buf z =
     (case t of
        CByte c \<Rightarrow>
          if c = 125 then (buf, z, Some code)
          else if c = 124 then enum_print_loop raw code (i + 1) buf (z \<or> raw = i)
          else enum_print_loop raw code i (if raw = i then buf @ [c] else buf) z
      | CLit c \<Rightarrow> enum_print_loop raw code i (if raw = i then buf @ [c] else buf) z
      | CSkip \<Rightarrow> enum_print_loop raw code i (if raw = i then buf @ [skip_code] else buf) z
      | _ \<Rightarrow> (buf, z, None))"

text \<open>
  \<open>Inl (alarm, bytes stored)\<close> or \<open>Inr (output, code after the brace)\<close>.
  \<open>buffer\<close> has \<open>buffersize\<close> bytes left in \<open>ioBuffer\<close>: a byte stored at
  index \<open>buffersize\<close> or beyond (more than \<open>buffersize\<close> bytes, or the 0
  after exactly \<open>buffersize\<close> of them) is a write past the allocation,
  before any alarm is returned.
\<close>

definition print_enum :: "ctok list \<Rightarrow> long \<Rightarrow> nat \<Rightarrow> (dev_error \<times> byte list) + (byte list \<times> ctok list)" where
  "print_enum code raw buffersize =
     (case enum_print_loop raw code 0 [] False of
        (buf, z, r) \<Rightarrow>
          if buffersize < length buf \<or> (z \<and> buffersize \<le> length buf) then Inl (Undefined, buf)
          else (case r of
                  None \<Rightarrow> Inl (SoftAlarm, buf)
                | Some rest \<Rightarrow> if buffersize \<le> length buf then Inl (HwLimitAlarm, buf) else Inr (buf, rest)))"

section \<open>Raw bytes: \<open>%r\<close>\<close>

text \<open>A byte read as \<open>signed char\<close> and as \<open>unsigned char\<close>, widened to \<open>long\<close>.\<close>

definition sext :: "byte \<Rightarrow> long" where "sext b = scast b"
definition zext :: "byte \<Rightarrow> long" where "zext b = ucast b"

text \<open>Little endian input: \<open>c\<close> more unsigned bytes, then the signed last one.\<close>

fun raw_le_loop :: "byte list \<Rightarrow> nat \<Rightarrow> nat \<Rightarrow> nat \<Rightarrow> long \<Rightarrow> dev_error + long \<times> nat" where
  "raw_le_loop src len 0 shift raw =
     (if 32 \<le> shift then Inl Undefined else Inr (raw OR push_bit shift (sext (byte_at src len)), Suc len))"
| "raw_le_loop src len (Suc c) shift raw =
     (if 32 \<le> shift then Inl Undefined
      else raw_le_loop src (Suc len) c (shift + 8) (raw OR push_bit shift (zext (byte_at src len))))"

fun raw_be_loop :: "byte list \<Rightarrow> nat \<Rightarrow> nat \<Rightarrow> long \<Rightarrow> long \<times> nat" where
  "raw_be_loop src len 0 raw = (raw, len)"
| "raw_be_loop src len (Suc c) raw = raw_be_loop src (Suc len) c (push_bit 8 raw OR zext (byte_at src len))"

definition scan_r :: "dformat \<Rightarrow> byte list \<Rightarrow> dev_error + (long option \<times> nat)" where
  "scan_r f src =
     (let w = (if dwidth f = 0 then 1 else dwidth f)
      in if FSkip \<in> dflags f then Inr (None, w)
         else if FAlt \<in> dflags f then
           (case raw_le_loop src 0 (w - 1) 0 0 of
              Inl e \<Rightarrow> Inl e
            | Inr (raw, len) \<Rightarrow> Inr (Some raw, len))
         else (let (raw, len) = raw_be_loop src 1 (w - 1) (sext (byte_at src 0)) in Inr (Some raw, len)))"

text \<open>Little endian output: \<open>buffer[len++] = raw & 0xFF; raw >>= 8;\<close> (arithmetic shift).\<close>

primrec le_bytes :: "long \<Rightarrow> nat \<Rightarrow> byte list" where
  "le_bytes raw 0 = []"
| "le_bytes raw (Suc p) = ucast raw # le_bytes (signed_drop_bit 8 raw) p"

text \<open>Big endian output: \<open>buffer[len++] = (raw >> (8 * prec)) & 0xFF\<close> for \<open>prec\<close> down to 0.\<close>

primrec be_bytes :: "long \<Rightarrow> nat \<Rightarrow> byte list" where
  "be_bytes raw 0 = []"
| "be_bytes raw (Suc p) = ucast (signed_drop_bit (8 * p) raw) # be_bytes raw p"

definition fill_of :: "bool \<Rightarrow> byte" where
  "fill_of neg = (if neg then 0xFF else 0)"

text \<open>
  \<open>prev\<close> is the byte \<open>buffer[-1]\<close>, the last byte already in the output
  buffer (\<open>None\<close> when the output is empty and the read falls before
  \<open>ioBuffer\<close>), which the little endian branch reads for its fill.
\<close>

definition print_r :: "dformat \<Rightarrow> long \<Rightarrow> nat \<Rightarrow> byte option \<Rightarrow> dev_error + byte list" where
  "print_r f raw buffersize prev =
     (let p = (if dprec f = -1 then 1 else dprec f);
          width = max p (int (dwidth f))
      in if int buffersize \<le> width then Inl HwLimitAlarm
      else if p < 0 then Inl Undefined
      else if FAlt \<in> dflags f then
        (case prev of
           None \<Rightarrow> Inl Undefined
         | Some b \<Rightarrow> Inr (le_bytes raw (nat p) @ replicate (nat width - nat p) (fill_of (bit b 7))))
      else if p = 0 \<or> 4 < p then Inl Undefined
      else Inr (replicate (nat width - nat p) (fill_of (bit (signed_drop_bit (8 * (nat p - 1)) raw) 7))
                @ be_bytes raw (nat p)))"

section \<open>Packed BCD: \<open>%D\<close>\<close>

text \<open>
  Output digits: \<open>bcd[i/2] |= raw % 10 << (4 * (i & 1)); raw /= 10;\<close> for
  \<open>i\<close> from 0, on the array \<open>bcd[6]\<close>; \<open>%\<close> and \<open>/\<close> truncate.
\<close>

primrec bcd_loop :: "nat \<Rightarrow> nat \<Rightarrow> long \<Rightarrow> byte list \<Rightarrow> byte list" where
  "bcd_loop i 0 raw bcd = bcd"
| "bcd_loop i (Suc c) raw bcd =
     bcd_loop (Suc i) c (ldiv raw 10)
       (bcd[i div 2 := bcd ! (i div 2) OR ucast (push_bit (4 * (i mod 2)) (lmod raw 10))])"

text \<open>
  \<open>len\<close> starts at -1 (\<open>int len = -1\<close> at the top of \<open>devStreamPrintf\<close>)
  and case \<open>'D'\<close>, unlike \<open>'b'\<close> and \<open>'r'\<close>, never resets it: the first byte
  stored goes to \<open>buffer[-1]\<close>, the byte before the output. The result is
  that byte (\<open>None\<close> if nothing is stored there) and the bytes from
  \<open>buffer[0]\<close> on, whose number is the final \<open>len\<close>. Big endian stores
  \<open>width - n + 1\<close> zeros from \<open>buffer[-1]\<close> and then the digit pairs, most
  significant first (one pair for precision 0, since \<open>(0 - 1) / 2 = 0\<close> in
  C), and ORs the sign into \<open>buffer[0]\<close>; little endian stores the pairs
  from \<open>buffer[-1]\<close>, least significant first, fills zeros up to
  \<open>buffer[width-1]\<close> and ORs the sign into \<open>buffer[len-1]\<close>. A precision
  below -1 is never produced by the format parser, and the model does not
  follow it (\<open>Undefined\<close>).
\<close>

definition print_D :: "dformat \<Rightarrow> long \<Rightarrow> nat \<Rightarrow> dev_error + byte option \<times> byte list" where
  "print_D f raw buffersize =
     (let p0 = (if dprec f = -1 then 8 else dprec f);
          width = max ((p0 + (if FSign \<in> dflags f then 2 else 1)) sdiv 2) (int (dwidth f))
      in if int buffersize \<le> width then Inl HwLimitAlarm
      else if p0 < 0 then Inl Undefined
      else
        (let neg = (FSign \<in> dflags f \<and> sint raw < 0);
             b5 = (if neg then 0x80 else 0 :: byte);
             p = min (nat p0) 10;
             bcd = bcd_loop 0 p (if neg then - raw else raw) (replicate 6 0);
             n = (p + 1) div 2
         in if FAlt \<in> dflags f then
              (let w = take n bcd @ replicate (nat width + 1 - n) 0;
                   w' = w[nat width := w ! nat width OR b5]
               in Inr (Some (hd w'), tl w'))
            else
              (let w = replicate (nat width + 1 - n) 0 @ rev (take (if p = 0 then 1 else n) bcd);
                   out = tl w
               in Inr (Some (hd w), out[0 := hd out OR b5]))))"

text \<open>
  Little endian input. \<open>shift\<close> is the weight of the current byte; the
  checks \<open>shift * bcd < bcd\<close> are meant to catch its overflow, and the last
  byte under \<open>+\<close> (sign flag) carries a sign in its high nibble.
\<close>

fun bcd_le_loop :: "bool \<Rightarrow> byte list \<Rightarrow> nat \<Rightarrow> nat \<Rightarrow> long \<Rightarrow> long \<Rightarrow> dev_error + long \<times> nat" where
  "bcd_le_loop sg src len 0 shift raw = Inr (raw, len)"
| "bcd_le_loop sg src len (Suc w) shift raw =
     (let b = byte_at src len; bcd1 = b AND 0x0F; bcd10 = b div 16
      in if 9 < bcd1 \<or> sint (shift * ucast bcd1) < sint (ucast bcd1 :: long) then Inl CalcAlarm
         else if w = 0 \<and> sg then
           (let r = raw + ucast bcd1 * shift in Inr (if bcd10 \<noteq> 0 then - r else r, Suc len))
         else if 9 < bcd10 \<or> sint (shift * ucast bcd10) < sint (ucast bcd10 :: long) then Inl CalcAlarm
         else bcd_le_loop sg src (Suc len) w (if sint shift \<le> 100000000 then shift * 100 else 0)
                (raw + (ucast bcd1 + 10 * ucast bcd10) * shift))"

text \<open>Big endian input: \<open>temp = raw * 100 + (bcd1 + 10 * bcd10)\<close>, refused when \<open>temp < raw\<close>.\<close>

fun bcd_be_loop :: "byte list \<Rightarrow> nat \<Rightarrow> nat \<Rightarrow> long \<Rightarrow> dev_error + long \<times> nat" where
  "bcd_be_loop src len 0 raw = Inr (raw, len)"
| "bcd_be_loop src len (Suc w) raw =
     (let b = byte_at src len; bcd1 = b AND 0x0F; bcd10 = b div 16
      in if 9 < bcd1 \<or> 9 < bcd10 then Inl CalcAlarm
         else (let temp = raw * 100 + (ucast bcd1 + 10 * ucast bcd10)
               in if sint temp < sint raw then Inl CalcAlarm else bcd_be_loop src (Suc len) w temp))"

text \<open>
  Big endian input under \<open>+\<close> takes a nonzero high nibble of the first byte as
  the sign and clears it in the input buffer (\<open>source[len] &= 0x0F\<close>).
\<close>

definition scan_D :: "dformat \<Rightarrow> byte list \<Rightarrow> dev_error + (long option \<times> nat)" where
  "scan_D f src =
     (let w = (if dwidth f = 0 then 1 else dwidth f);
          res = (if FAlt \<in> dflags f then bcd_le_loop (FSign \<in> dflags f) src 0 w 1 0
                 else
                   (let neg = (FSign \<in> dflags f \<and> byte_at src 0 AND 0xF0 \<noteq> 0);
                        src' = (if neg then src[0 := byte_at src 0 AND 0x0F] else src)
                    in case bcd_be_loop src' 0 w 0 of
                         Inl e \<Rightarrow> Inl e
                       | Inr (raw, len) \<Rightarrow> Inr (if neg then - raw else raw, len)))
      in case res of
           Inl e \<Rightarrow> Inl e
         | Inr (raw, len) \<Rightarrow> Inr (if FSkip \<in> dflags f then None else Some raw, len))"

section \<open>Separators\<close>

text \<open>
  A byte of the compiled separator string: an ordinary byte, a byte escaped by
  \<open>ESC\<close>, and the wildcard \<open>SKIP\<close>; the terminating \<open>NUL\<close> is the end of
  the list.
\<close>

datatype septok = SByte byte | SLit byte | SSkip

definition strip_space :: "septok list \<Rightarrow> septok list" where
  "strip_space sep = (if sep \<noteq> [] \<and> hd sep = SByte 32 then tl sep else sep)"

text \<open>\<open>while (len <= maxlen && isspace (buffer[len])) len++;\<close>\<close>

function skip_ws :: "byte list \<Rightarrow> int \<Rightarrow> nat \<Rightarrow> nat" where
  "skip_ws buf maxlen len =
     (if int len \<le> maxlen \<and> isspace (byte_at buf len) then skip_ws buf maxlen (Suc len) else len)"
  by pat_completeness auto
termination
  by (relation "measure (\<lambda>(buf, maxlen, len). nat (maxlen + 1 - int len))") auto

fun scan_sep_loop :: "septok list \<Rightarrow> byte list \<Rightarrow> int \<Rightarrow> nat \<Rightarrow> nat option" where
  "scan_sep_loop [] buf maxlen len = Some len"
| "scan_sep_loop (SSkip # sep) buf maxlen len = scan_sep_loop sep buf maxlen (Suc len)"
| "scan_sep_loop (SByte c # sep) buf maxlen len =
     (if maxlen \<le> int len \<or> c \<noteq> byte_at buf len then None else scan_sep_loop sep buf maxlen (Suc len))"
| "scan_sep_loop (SLit c # sep) buf maxlen len =
     (if maxlen \<le> int len \<or> c \<noteq> byte_at buf len then None else scan_sep_loop sep buf maxlen (Suc len))"

text \<open>
  \<open>devStreamScanSep\<close>: \<open>buf\<close> is the input from \<open>processed\<close> on and
  \<open>maxlen = length - processed\<close>; the result is the number of bytes to
  consume, \<open>None\<close> for \<open>ERROR\<close>.
\<close>

definition scan_sep :: "septok list \<Rightarrow> byte list \<Rightarrow> int \<Rightarrow> nat option" where
  "scan_sep sep buf maxlen =
     (if maxlen \<le> 0 then None
      else if sep \<noteq> [] \<and> hd sep = SByte 32 then scan_sep_loop (tl sep) buf maxlen (skip_ws buf maxlen 0)
      else scan_sep_loop sep buf maxlen 0)"

text \<open>
  The output loop stores \<open>buffer[len++]\<close> and only then compares \<open>len\<close>
  with \<open>maxlen\<close>, the bytes left in \<open>ioBuffer\<close>; the result is the bytes
  stored and whether it stopped there. When it stops, the last byte went to
  \<open>buffer[maxlen]\<close>, one past the allocation, so \<open>devStreamPrintSep\<close>'s
  \<open>HW_LIMIT_ALARM\<close> comes after undefined behaviour.
\<close>

fun print_sep_loop :: "septok list \<Rightarrow> int \<Rightarrow> byte list \<Rightarrow> byte list \<times> bool" where
  "print_sep_loop [] maxlen out = (out, False)"
| "print_sep_loop (SSkip # sep) maxlen out = print_sep_loop sep maxlen out"
| "print_sep_loop (SByte c # sep) maxlen out =
     (if maxlen < int (length (out @ [c])) then (out @ [c], True) else print_sep_loop sep maxlen (out @ [c]))"
| "print_sep_loop (SLit c # sep) maxlen out =
     (if maxlen < int (length (out @ [c])) then (out @ [c], True) else print_sep_loop sep maxlen (out @ [c]))"

definition print_sep :: "septok list \<Rightarrow> int \<Rightarrow> (dev_error \<times> byte list) + byte list" where
  "print_sep sep maxlen =
     (case print_sep_loop (strip_space sep) maxlen [] of
        (out, True) \<Rightarrow> Inl (Undefined, out)
      | (out, False) \<Rightarrow> Inr out)"


text \<open>
  The decimal reading of packed BCD bytes: low nibble the units, high nibble
  the tens of each pair, pairs most significant first.
\<close>

definition bcd_pair :: "byte \<Rightarrow> nat" where
  "bcd_pair b = unat (b AND 0x0F) + 10 * unat (b div 16)"

definition bcd_ok :: "byte \<Rightarrow> bool" where
  "bcd_ok b \<longleftrightarrow> \<not> 9 < b AND 0x0F \<and> \<not> 9 < b div 16"

definition bcd_acc :: "nat \<Rightarrow> byte list \<Rightarrow> nat" where
  "bcd_acc r bs = foldl (\<lambda>a b. a * 100 + bcd_pair b) r bs"

definition bcd_byte_of :: "nat \<Rightarrow> nat \<Rightarrow> byte" where
  "bcd_byte_of n k = word_of_nat (n div 100 ^ k mod 10 + 16 * (n div 100 ^ k div 10 mod 10))"

declare bin_scan_loop.simps [simp del] first_nonblank.simps [simp del] skip_ws.simps [simp del]

section \<open>Binary conversion: print and scan agree\<close>

lemma and_shl1_iff: "(raw AND shl1 p \<noteq> 0) \<longleftrightarrow> bit raw p"
  by (simp add: shl1_def and_exp_eq_0_iff_not_bit push_bit_of_1)

lemma bin_prec_le: "bin_prec raw n \<le> n"
  by (induction n) auto

lemma bin_prec_high: "bin_prec raw n \<le> i \<Longrightarrow> i < n \<Longrightarrow> \<not> bit raw i"
proof (induction n)
  case (Suc n)
  then show ?case using bin_prec_le [of raw n] and_shl1_iff [of raw n]
    by (auto split: if_splits simp: less_Suc_eq)
qed simp

lemma bin_prec_above: "bin_prec raw 32 \<le> i \<Longrightarrow> \<not> bit raw i"
proof (cases "i < 32")
  case False
  then show ?thesis by (auto dest: bit_imp_le_length)
qed (rule bin_prec_high)

lemma take_bit_bin_prec: "bin_prec raw 32 \<le> p \<Longrightarrow> take_bit p raw = raw"
proof (rule bit_word_eqI)
  fix n :: nat
  assume "bin_prec raw 32 \<le> p"
  then have "bit raw n \<Longrightarrow> n < p" using bin_prec_above [of raw n] by (meson le_trans not_le)
  then show "bit (take_bit p raw) n = bit raw n"
    unfolding bit_take_bit_iff by blast
qed

lemma bin_digits_zeros: "bin_prec raw 32 \<le> p \<Longrightarrow> replicate k 48 @ bin_digits raw p = bin_digits raw (k + p)"
proof (induction k)
  case (Suc k)
  then show ?case using bin_prec_above [of raw "k + p"] by (simp add: and_shl1_iff)
qed simp

lemma bin_step:
  "push_bit p (push_bit 1 acc OR (if bit raw p then 1 else 0)) OR take_bit p raw
   = push_bit (Suc p) acc OR take_bit (Suc p) (raw :: long)"
proof (rule bit_word_eqI)
  fix n :: nat
  assume n: "n < LENGTH(32)"
  have b1: "bit (if bit raw p then 1 else 0 :: long) m \<longleftrightarrow> m = 0 \<and> bit raw p" for m
    by (simp add: bit_1_iff)
  show "bit (push_bit p (push_bit 1 acc OR (if bit raw p then 1 else 0)) OR take_bit p raw) n
        = bit (push_bit (Suc p) acc OR take_bit (Suc p) raw) n"
    unfolding bit_or_iff bit_push_bit_iff bit_take_bit_iff b1
    using n by (auto simp: less_Suc_eq possible_bit_def)
qed

lemma length_bin_digits [simp]: "length (bin_digits raw p) = p"
  by (induction p) simp_all

lemma bin_scan_loop_digit:
  "w \<noteq> 0 \<Longrightarrow> byte_at src len = d \<Longrightarrow> d = 48 \<or> d = 49 \<Longrightarrow>
   bin_scan_loop src len w raw = bin_scan_loop src (Suc len) (w - 1) (push_bit 1 raw OR (if d = 49 then 1 else 0))"
  by (subst bin_scan_loop.simps) auto

lemma bin_scan_loop_stop:
  "byte_at src len \<noteq> 48 \<Longrightarrow> byte_at src len \<noteq> 49 \<Longrightarrow> bin_scan_loop src len w raw = (raw, len)"
  by (subst bin_scan_loop.simps) simp

lemma bin_scan_loop_digits:
  "byte_at rest 0 \<noteq> 48 \<Longrightarrow> byte_at rest 0 \<noteq> 49 \<Longrightarrow> w < 0 \<Longrightarrow>
   bin_scan_loop (pre @ bin_digits raw p @ rest) (length pre) w acc
     = (push_bit p acc OR take_bit p raw, length pre + p)"
proof (induction p arbitrary: pre w acc)
  case 0
  then show ?case using byte_at_append_length [of pre rest 0] by (simp add: bin_scan_loop_stop)
next
  case (Suc p)
  let ?d = "if bit raw p then 49 else 48 :: byte"
  have e: "pre @ bin_digits raw (Suc p) @ rest = (pre @ [?d]) @ bin_digits raw p @ rest"
    by (simp add: and_shl1_iff)
  have at: "byte_at ((pre @ [?d]) @ bin_digits raw p @ rest) (length pre) = ?d"
    by (simp add: byte_at_def nth_append)
  have "bin_scan_loop ((pre @ [?d]) @ bin_digits raw p @ rest) (length pre) w acc
        = bin_scan_loop ((pre @ [?d]) @ bin_digits raw p @ rest) (length (pre @ [?d])) (w - 1)
            (push_bit 1 acc OR (if bit raw p then 1 else 0))"
    using Suc.prems(3) by (subst bin_scan_loop_digit [OF _ at]) simp_all
  also have "\<dots> = (push_bit (Suc p) acc OR take_bit (Suc p) raw, length pre + Suc p)"
    using Suc.IH [where pre = "pre @ [?d]" and w = "w - 1"] Suc.prems bin_step by simp
  finally show ?case by (simp only: e)
qed

lemma first_nonblank_skip:
  "\<forall>x\<in>set sp. isspace x \<Longrightarrow> \<not> isspace (byte_at src 0) \<Longrightarrow>
   first_nonblank (pre @ sp @ src) (length pre) = length pre + length sp"
proof (induction sp arbitrary: pre)
  case Nil
  then show ?case using byte_at_append_length [of pre src 0] by (subst first_nonblank.simps) simp
next
  case (Cons x sp)
  have "first_nonblank (pre @ (x # sp) @ src) (length pre) = first_nonblank ((pre @ [x]) @ sp @ src) (length (pre @ [x]))"
    using Cons.prems(1) by (subst first_nonblank.simps) (simp add: byte_at_def nth_append)
  also have "\<dots> = length pre + length (x # sp)"
    using Cons.IH [of "pre @ [x]"] Cons.prems by simp
  finally show ?case .
qed

lemma bin_digits_first: "byte_at (bin_digits raw (Suc p) @ rest) 0 = 48 \<or> byte_at (bin_digits raw (Suc p) @ rest) 0 = 49"
  by (simp only: bin_digits.simps append_Cons byte_at_Cons_0) simp

lemma scan_b_digits:
  assumes "\<forall>x\<in>set sp. isspace x" "dwidth g = 0" "FSkip \<notin> dflags g"
      and "byte_at rest 0 \<noteq> 48" "byte_at rest 0 \<noteq> 49"
  shows "scan_b g (sp @ bin_digits raw (Suc p) @ rest) = Inr (Some (take_bit (Suc p) raw), length sp + Suc p)"
proof -
  have d: "byte_at (bin_digits raw (Suc p) @ rest) 0 = 48 \<or> byte_at (bin_digits raw (Suc p) @ rest) 0 = 49"
    by (rule bin_digits_first)
  then have "\<not> isspace (byte_at (bin_digits raw (Suc p) @ rest) 0)" by (auto simp: isspace_def)
  then have i: "first_nonblank (sp @ bin_digits raw (Suc p) @ rest) 0 = length sp"
    using first_nonblank_skip [OF assms(1), of _ "[]"] by simp
  have at: "byte_at (sp @ bin_digits raw (Suc p) @ rest) (length sp) = byte_at (bin_digits raw (Suc p) @ rest) 0"
    using byte_at_append_length [of sp _ 0] by simp
  show ?thesis
    using assms(2-5) d bin_scan_loop_digits [of rest "-1" sp raw "Suc p" 0]
    unfolding scan_b_def i at by (auto simp: Let_def)
qed

lemma print_b_default:
  assumes "dprec f = -1" "FLeft \<notin> dflags f" "dwidth f < bs" "32 < bs"
  shows "print_b f raw bs
         = Inr (replicate (max (bin_width raw) (dwidth f) - bin_width raw) (if FZero \<in> dflags f then 48 else 32)
                @ bin_digits raw (bin_width raw))"
proof -
  have le: "bin_prec raw 32 \<le> 32" by (rule bin_prec_le)
  have p: "(if int (bin_prec raw 32) = 0 then 1 else int (bin_prec raw 32)) = int (bin_width raw)"
    by (simp add: bin_width_def)
  have w: "max (int (bin_width raw)) (int (dwidth f)) = int (max (bin_width raw) (dwidth f))" by simp
  have "\<not> int bs \<le> int (max (bin_width raw) (dwidth f))" "\<not> int (bin_width raw) < 0"
       "\<not> 32 < int (bin_width raw)"
    using assms(3,4) le by (auto simp: bin_width_def)
  then show ?thesis
    by (simp only: print_b_def Let_def assms(1) simp_thms(6) if_True p w if_False nat_int)
       (simp add: assms(2))
qed

lemma bin_width_Suc: "\<exists>q. bin_width raw = Suc q"
  by (simp add: bin_width_def) presburger


lemma take_bit_bin_width: "bin_width raw \<le> n \<Longrightarrow> take_bit n raw = raw"
  by (rule take_bit_bin_prec) (simp add: bin_width_def)


text \<open>
  C15: Binary output read back: \<open>%b\<close> printed with the default
  precision, right-aligned with blank or zero fill, into a buffer with room
  for it, is read back by \<open>%b\<close> (no width) as the same 32-bit value,
  consuming exactly the printed bytes, whatever non-digit follows.
\<close>

theorem print_scan_b_roundtrip:
  assumes "dprec f = -1" "FLeft \<notin> dflags f" "dwidth f < bs" "32 < bs"
      and "dwidth g = 0" "FSkip \<notin> dflags g"
      and "byte_at rest 0 \<noteq> 48" "byte_at rest 0 \<noteq> 49"
  shows "\<exists>out. print_b f raw bs = Inr out \<and> scan_b g (out @ rest) = Inr (Some raw, length out)"
proof -
  let ?p = "bin_width raw" and ?W = "max (bin_width raw) (dwidth f)"
  obtain q where q: "?p = Suc q" using bin_width_Suc by blast
  show ?thesis
  proof (cases "FZero \<in> dflags f")
    case True
    have "0 < ?W" using q by simp
    then obtain r where r: "?W = Suc r" using not0_implies_Suc by blast
    have "replicate (?W - ?p) 48 @ bin_digits raw ?p = bin_digits raw ?W"
      using bin_digits_zeros [of raw ?p "?W - ?p"] by (simp add: bin_width_def)
    moreover have "scan_b g ([] @ bin_digits raw ?W @ rest) = Inr (Some raw, ?W)"
      using scan_b_digits [of "[]" g rest raw r] assms(5-8) take_bit_bin_width [of raw ?W] r by simp
    ultimately show ?thesis using print_b_default [OF assms(1-4)] True by simp
  next
    case False
    have sp: "\<forall>x\<in>set (replicate (?W - ?p) (32::byte)). isspace x" by (simp add: isspace_def)
    have "scan_b g (replicate (?W - ?p) 32 @ bin_digits raw ?p @ rest) = Inr (Some raw, ?W - ?p + ?p)"
      using scan_b_digits [OF sp assms(5-8), of raw q] take_bit_bin_width [of raw ?p] q by simp
    then show ?thesis using print_b_default [OF assms(1-4)] False by simp
  qed
qed

section \<open>Packed BCD: value, errors and round trip\<close>

lemma sint_of_nat_small: "n < 2 ^ 31 \<Longrightarrow> sint (word_of_nat n :: long) = int n"
proof -
  assume n: "n < 2 ^ 31"
  then have "take_bit 32 n = n" by (simp add: take_bit_nat_eq_self)
  then show ?thesis using n by (simp add: sint_uint unsigned_of_nat signed_take_bit_int_eq_self)
qed

lemma ucast_byte_long: "(ucast (x :: byte) :: long) = word_of_nat (unat x)"
  by simp

lemma bcd_acc_mono: "r \<le> bcd_acc r bs"
proof (induction bs arbitrary: r)
  case (Cons b bs)
  have "r \<le> r * 100 + bcd_pair b" by simp
  then show ?case using Cons.IH [of "r * 100 + bcd_pair b"] by (simp add: bcd_acc_def)
qed (simp add: bcd_acc_def)

lemma bcd_be_loop_prefix:
  "\<forall>b\<in>set bs. bcd_ok b \<Longrightarrow> bcd_acc r bs < 2 ^ 31 \<Longrightarrow>
   bcd_be_loop (pre @ bs @ rest) (length pre) (length bs + k) (word_of_nat r)
   = bcd_be_loop (pre @ bs @ rest) (length pre + length bs) k (word_of_nat (bcd_acc r bs))"
proof (induction bs arbitrary: pre r)
  case Nil
  then show ?case by (simp add: bcd_acc_def)
next
  case (Cons b bs)
  let ?r' = "r * 100 + bcd_pair b"
  have acc: "bcd_acc r (b # bs) = bcd_acc ?r' bs" by (simp add: bcd_acc_def)
  have small: "?r' < 2 ^ 31" "r < 2 ^ 31"
    using bcd_acc_mono [of ?r' bs] Cons.prems(2) acc by linarith+
  have ok: "\<not> 9 < b AND 0x0F" "\<not> 9 < b div 16" using Cons.prems(1) by (simp_all add: bcd_ok_def)
  have t: "word_of_nat r * 100 + (ucast (b AND 0x0F) + 10 * ucast (b div 16)) = (word_of_nat ?r' :: long)"
    by (simp add: bcd_pair_def)
  have s1: "sint (word_of_nat ?r' :: long) = int ?r'" by (rule sint_of_nat_small) (rule small(1))
  have s2: "sint (word_of_nat r :: long) = int r" by (rule sint_of_nat_small) (rule small(2))
  have s: "\<not> sint (word_of_nat ?r' :: long) < sint (word_of_nat r :: long)"
    unfolding s1 s2 by simp
  have "bcd_be_loop (pre @ (b # bs) @ rest) (length pre) (length (b # bs) + k) (word_of_nat r)
        = bcd_be_loop ((pre @ [b]) @ bs @ rest) (length (pre @ [b])) (length bs + k) (word_of_nat ?r')"
    using ok t s by (simp add: Let_def)
  also have "\<dots> = bcd_be_loop (pre @ (b # bs) @ rest) (length pre + length (b # bs)) k (word_of_nat (bcd_acc r (b # bs)))"
    using Cons.IH [where pre = "pre @ [b]" and r = "?r'"] Cons.prems acc by simp
  finally show ?case .
qed

lemma bcd_be_loop_val:
  "\<forall>b\<in>set bs. bcd_ok b \<Longrightarrow> bcd_acc r bs < 2 ^ 31 \<Longrightarrow>
   bcd_be_loop (pre @ bs @ rest) (length pre) (length bs) (word_of_nat r) = Inr (word_of_nat (bcd_acc r bs), length pre + length bs)"
  using bcd_be_loop_prefix [of bs r pre rest 0] by simp

lemma bcd_be_loop_bad:
  "\<forall>b\<in>set bs. bcd_ok b \<Longrightarrow> bcd_acc r bs < 2 ^ 31 \<Longrightarrow> \<not> bcd_ok c \<Longrightarrow>
   bcd_be_loop (pre @ bs @ c # rest) (length pre) (length bs + Suc k) (word_of_nat r) = Inl CalcAlarm"
proof -
  assume a: "\<forall>b\<in>set bs. bcd_ok b" "bcd_acc r bs < 2 ^ 31" "\<not> bcd_ok c"
  have "byte_at (pre @ bs @ c # rest) (length pre + length bs) = c"
    using byte_at_append_length [of "pre @ bs" "c # rest" 0] by simp
  then show ?thesis
    using bcd_be_loop_prefix [OF a(1,2), of pre "c # rest" "Suc k"] a(3) by (simp add: bcd_ok_def Let_def)
qed

lemma nib_or: "d0 < 16 \<Longrightarrow> (word_of_nat d0 :: byte) OR push_bit 4 (word_of_nat d1) = word_of_nat d0 + push_bit 4 (word_of_nat d1)"
proof -
  assume d0: "d0 < 16"
  have "take_bit 4 d0 = d0" using d0 by (simp add: take_bit_nat_eq_self)
  then have t: "take_bit 4 (word_of_nat d0 :: byte) = word_of_nat d0" by (metis of_nat_take_bit)
  show ?thesis
  proof (rule disjunctive_add [symmetric])
    fix n
    show "\<not> bit (word_of_nat d0 :: byte) n \<or> \<not> bit (push_bit 4 (word_of_nat d1 :: byte)) n"
      using t by (metis bit_push_bit_iff bit_take_bit_iff not_le)
  qed
qed

lemma nib_val: "d0 < 16 \<Longrightarrow> d1 < 16 \<Longrightarrow> unat (word_of_nat (d0 + 16 * d1) :: byte) = d0 + 16 * d1"
proof -
  assume "d0 < 16" "d1 < 16"
  then have "take_bit 8 (d0 + 16 * d1) = d0 + 16 * d1" by (simp add: take_bit_nat_eq_self)
  then show ?thesis by (simp only: unsigned_of_nat) simp
qed

lemma nib_lo: "d0 < 16 \<Longrightarrow> d1 < 16 \<Longrightarrow> unat ((word_of_nat (d0 + 16 * d1) :: byte) AND 0x0F) = d0"
proof -
  assume a: "d0 < 16" "d1 < 16"
  have m: "(0x0F :: byte) = mask 4" by (simp add: mask_eq_exp_minus_1)
  have "unat ((word_of_nat (d0 + 16 * d1) :: byte) AND mask 4) = take_bit 4 (d0 + 16 * d1)"
    unfolding take_bit_eq_mask [symmetric] unsigned_take_bit_eq nib_val [OF a] ..
  then show ?thesis using a unfolding m by (simp add: take_bit_eq_mod)
qed

lemma nib_hi: "d0 < 16 \<Longrightarrow> d1 < 16 \<Longrightarrow> unat ((word_of_nat (d0 + 16 * d1) :: byte) div 16) = d1"
proof -
  assume a: "d0 < 16" "d1 < 16"
  have "unat ((word_of_nat (d0 + 16 * d1) :: byte) div 16) = (d0 + 16 * d1) div 16"
    unfolding unat_div nib_val [OF a] by simp
  then show ?thesis using a by simp
qed

lemma sint_10: "sint (10 :: long) = 10" by simp

lemma lmod_small: "m < 2 ^ 31 \<Longrightarrow> lmod (word_of_nat m) 10 = word_of_nat (m mod 10)"
proof -
  assume "m < 2 ^ 31"
  then have "sint (word_of_nat m :: long) smod sint (10 :: long) = int (m mod 10)"
    by (simp add: sint_of_nat_small smod_mod_positive zmod_int)
  then show ?thesis unfolding lmod_def by (simp only: of_int_of_nat_eq)
qed

lemma ldiv_small: "m < 2 ^ 31 \<Longrightarrow> ldiv (word_of_nat m) 10 = word_of_nat (m div 10)"
proof -
  assume "m < 2 ^ 31"
  then have "sint (word_of_nat m :: long) sdiv sint (10 :: long) = int (m div 10)"
    by (cases "m = 0") (simp_all add: sint_of_nat_small signed_divide_int_eq_divide_int zdiv_int)
  then show ?thesis unfolding ldiv_def by (simp only: of_int_of_nat_eq)
qed

lemma ucast_long_of_nat: "(ucast (word_of_nat d :: long) :: byte) = word_of_nat d"
  by (rule bit_word_eqI) (auto simp: bit_simps)

lemma ucast_push_bit_4: "(ucast (push_bit 4 (word_of_nat d :: long)) :: byte) = push_bit 4 (word_of_nat d)"
proof -
  have "push_bit 4 (word_of_nat d :: long) = word_of_nat (d * 16)" "push_bit 4 (word_of_nat d :: byte) = word_of_nat (d * 16)"
    by (simp_all add: push_bit_eq_mult)
  then show ?thesis by (simp only: ucast_long_of_nat)
qed

lemma bcd_nibbles: "d0 < 10 \<Longrightarrow> (word_of_nat d0 :: byte) OR push_bit 4 (word_of_nat d1) = word_of_nat (d0 + 16 * d1)"
proof -
  assume "d0 < 10"
  then have "d0 < 16" by simp
  from nib_or [OF this, of d1] show ?thesis by (simp add: push_bit_eq_mult)
qed

lemma bcd_loop_two:
  assumes "length xs = k" "m < 2 ^ 31"
  shows "bcd_loop (2 * k) (Suc (Suc c)) (word_of_nat m) (xs @ 0 # ys)
         = bcd_loop (2 * k + 2) c (word_of_nat (m div 100)) (xs @ word_of_nat (m mod 10 + 16 * (m div 10 mod 10)) # ys)"
proof -
  have m10: "m div 10 < 2 ^ 31" using assms(2) by linarith
  have e: "m div 10 div 10 = m div 100" by (simp add: div_mult2_eq)
  have d: "(2 * k) div 2 = k" "(2 * k) mod 2 = 0" "Suc (2 * k) div 2 = k" "Suc (2 * k) mod 2 = 1" by simp_all
  show ?thesis
    using assms(1)
    by (simp add: d lmod_small [OF assms(2)] ldiv_small [OF assms(2)] lmod_small [OF m10] ldiv_small [OF m10]
        ucast_long_of_nat ucast_push_bit_4 bcd_nibbles list_update_append nth_append e)
qed

lemma bcd_loop_pairs:
  "k + j \<le> 6 \<Longrightarrow> n < 2 ^ 31 \<Longrightarrow>
   bcd_loop (2 * k) (2 * j) (word_of_nat (n div 100 ^ k)) (map (bcd_byte_of n) [0..<k] @ replicate (6 - k) 0)
   = map (bcd_byte_of n) [0..<k + j] @ replicate (6 - (k + j)) 0"
proof (induction j arbitrary: k)
  case (Suc j)
  have r: "replicate (6 - k) (0 :: byte) = 0 # replicate (6 - Suc k) 0" using Suc.prems(1)
    by (simp add: Suc_diff_Suc [symmetric])
  have m: "n div 100 ^ k < 2 ^ 31" using Suc.prems(2) by (meson div_le_dividend le_less_trans)
  have e: "n div 100 ^ k div 100 = n div 100 ^ Suc k" by (simp only: power_Suc2 div_mult2_eq)
  have "bcd_loop (2 * k) (2 * Suc j) (word_of_nat (n div 100 ^ k)) (map (bcd_byte_of n) [0..<k] @ replicate (6 - k) 0)
        = bcd_loop (2 * Suc k) (2 * j) (word_of_nat (n div 100 ^ Suc k)) (map (bcd_byte_of n) [0..<Suc k] @ replicate (6 - Suc k) 0)"
    unfolding r using bcd_loop_two [of "map (bcd_byte_of n) [0..<k]" k "n div 100 ^ k" "2 * j" "replicate (6 - Suc k) 0"] m e
    by (simp add: bcd_byte_of_def)
  then show ?case using Suc.IH [of "Suc k"] Suc.prems by simp
qed simp

lemma bcd_pair_byte_of: "bcd_pair (bcd_byte_of n k) = n div 100 ^ k mod 100"
proof -
  let ?a = "n div 100 ^ k"
  have a: "?a mod 10 < 16" "?a div 10 mod 10 < 16" by simp_all
  have "bcd_pair (bcd_byte_of n k) = ?a mod 10 + 10 * (?a div 10 mod 10)"
    unfolding bcd_pair_def bcd_byte_of_def nib_lo [OF a] nib_hi [OF a] ..
  also have "\<dots> = ?a mod 100" using mod_mult2_eq [of ?a 10 10] by simp
  finally show ?thesis .
qed

lemma bcd_ok_byte_of: "bcd_ok (bcd_byte_of n k)"
proof -
  let ?a = "n div 100 ^ k"
  have a: "?a mod 10 < 16" "?a div 10 mod 10 < 16" by simp_all
  have "\<not> 9 < x mod 10" for x :: nat by linarith
  then show ?thesis
    using nib_lo [OF a] nib_hi [OF a] unfolding bcd_ok_def bcd_byte_of_def word_less_nat_alt by simp
qed

lemma bcd_acc_pairs: "bcd_acc r (rev (map (bcd_byte_of n) [0..<j])) = r * 100 ^ j + n mod 100 ^ j"
proof (induction j arbitrary: r)
  case (Suc j)
  have "bcd_acc r (rev (map (bcd_byte_of n) [0..<Suc j])) = bcd_acc (r * 100 + n div 100 ^ j mod 100) (rev (map (bcd_byte_of n) [0..<j]))"
    by (simp add: bcd_acc_def bcd_pair_byte_of)
  also have "\<dots> = r * 100 ^ Suc j + n mod 100 ^ Suc j"
    using Suc.IH mod_mult2_eq [of n "100 ^ j" 100] by (simp add: algebra_simps)
  finally show ?case .
qed (simp add: bcd_acc_def)

lemma bcd_acc_zeros: "bcd_acc 0 (replicate z 0 @ bs) = bcd_acc 0 bs"
  by (induction z) (simp_all add: bcd_acc_def bcd_pair_def)

lemma bcd_ok_0: "bcd_ok 0"
  by (simp add: bcd_ok_def)

text \<open>
  C17: Packed BCD input, big endian: a byte with a nibble above 9 inside
  the field width makes the conversion fail with \<open>CALC_ALARM\<close>.
\<close>

theorem scan_D_be_bad_digit:
  assumes "FAlt \<notin> dflags g" "FSign \<notin> dflags g" "length bs < dwidth g"
      and "\<forall>b\<in>set bs. bcd_ok b" "bcd_acc 0 bs < 2 ^ 31" "\<not> bcd_ok c"
  shows "scan_D g (bs @ c # rest) = Inl CalcAlarm"
proof -
  obtain k where k: "dwidth g = length bs + Suc k" using less_imp_Suc_add [OF assms(3)] by auto
  show ?thesis using bcd_be_loop_bad [OF assms(4-6), of "[]" rest k] assms(1,2) k by (simp add: scan_D_def)
qed

lemma length_bcd_loop [simp]: "length (bcd_loop i c raw bcd) = length bcd"
  by (induction c arbitrary: i raw bcd) simp_all

lemma list_update_0_hd: "xs \<noteq> [] \<Longrightarrow> xs[0 := hd xs] = xs"
  by (cases xs) simp_all

lemma print_D_default_be:
  assumes "dprec f = -1" "FAlt \<notin> dflags f" "FSign \<notin> dflags f" "dwidth f < bs" "4 < bs"
  shows "print_D f raw bs = Inr (Some 0, replicate (max 4 (dwidth f) - 4) 0 @ rev (take 4 (bcd_loop 0 8 raw (replicate 6 0))))"
proof -
  let ?ys = "rev (take 4 (bcd_loop 0 8 raw (replicate 6 0)))"
  have w: "max ((8 + 1) sdiv 2) (int (dwidth f)) = int (max 4 (dwidth f))" by simp
  have "length (bcd_loop 0 8 raw (replicate 6 0)) = 6" by simp
  then have ne: "?ys \<noteq> []" by (metis Nil_is_rev_conv take_eq_Nil length_0_conv zero_neq_numeral)
  have up: "(replicate z 0 @ ?ys)[0 := hd (replicate z 0 @ ?ys)] = replicate z 0 @ ?ys" for z
    using ne by (cases z) (simp_all add: list_update_0_hd)
  have m: "max 4 (dwidth f) - 3 = Suc (max 4 (dwidth f) - 4)" by (simp add: max_def, arith)
  have r: "replicate (max 4 (dwidth f) - 3) (0::byte) = 0 # replicate (max 4 (dwidth f) - 4) 0"
    by (simp only: m replicate_Suc)
  have "\<not> int bs \<le> int (max 4 (dwidth f))" using assms(4,5) by simp
  then show ?thesis
    by (simp only: print_D_def Let_def assms(1) simp_thms(6) if_True if_False w assms(2,3))
       (simp add: up r del: hd_append)
qed

lemma scan_D_be_val:
  assumes "FAlt \<notin> dflags g" "FSign \<notin> dflags g" "FSkip \<notin> dflags g" "dwidth g = length bs" "bs \<noteq> []"
      and "\<forall>b\<in>set bs. bcd_ok b" "bcd_acc 0 bs < 2 ^ 31"
  shows "scan_D g (bs @ rest) = Inr (Some (word_of_nat (bcd_acc 0 bs)), length bs)"
  using bcd_be_loop_val [OF assms(6,7), of "[]" rest] assms(1-5) by (simp add: scan_D_def)

text \<open>
  C16: Packed BCD input, big endian: \<open>%ND\<close> reads N bytes of valid BCD
  digit pairs as the decimal number they spell, most significant pair first,
  when that number fits a \<open>long\<close>, and consumes exactly the N bytes.
\<close>

theorem scan_D_be_value:
  assumes "FAlt \<notin> dflags g" "FSign \<notin> dflags g" "FSkip \<notin> dflags g" "dwidth g = length bs" "bs \<noteq> []"
      and "\<forall>b\<in>set bs. bcd_ok b" "bcd_acc 0 bs < 2 ^ 31"
  shows "scan_D g (bs @ rest) = Inr (Some (word_of_nat (bcd_acc 0 bs)), length bs)"
  using assms by (rule scan_D_be_val)

text \<open>
  C18: Packed BCD output, big endian: a value in 0 .. 99999999 printed by
  \<open>%D\<close> with the default precision (8 digits, zero fill to the width) is
  read back by \<open>%D\<close> of the printed width as the same value; but the
  output also stores 0 at \<open>buffer[-1]\<close>, overwriting the byte before it
  (or writing before \<open>ioBuffer\<close> when the output starts the buffer).
\<close>

theorem print_scan_D_roundtrip:
  assumes "dprec f = -1" "FAlt \<notin> dflags f" "FSign \<notin> dflags f" "dwidth f < bs" "4 < bs"
      and "raw < 100000000"
      and "FAlt \<notin> dflags g" "FSign \<notin> dflags g" "FSkip \<notin> dflags g" "dwidth g = max 4 (dwidth f)"
  shows "\<exists>out. print_D f raw bs = Inr (Some 0, out) \<and> length out = max 4 (dwidth f) \<and> scan_D g (out @ rest) = Inr (Some raw, length out)"
proof -
  let ?n = "unat raw"
  have n: "?n < 100000000" using assms(6) by (simp add: word_less_nat_alt)
  then have n31: "?n < 2 ^ 31" by simp
  have "bcd_loop 0 8 raw (replicate 6 0) = map (bcd_byte_of ?n) [0..<4] @ replicate 2 0"
    using bcd_loop_pairs [of 0 4 ?n, OF _ n31] by simp
  then have p: "print_D f raw bs = Inr (Some 0, replicate (max 4 (dwidth f) - 4) 0 @ rev (map (bcd_byte_of ?n) [0..<4]))"
    using print_D_default_be [OF assms(1-5)] by simp
  let ?out = "replicate (max 4 (dwidth f) - 4) 0 @ rev (map (bcd_byte_of ?n) [0..<4])"
  have acc: "bcd_acc 0 ?out = ?n"
    using bcd_acc_pairs [of 0 ?n 4] n by (simp add: bcd_acc_zeros)
  have ok: "\<forall>b\<in>set ?out. bcd_ok b" using bcd_ok_byte_of bcd_ok_0 by auto
  have "scan_D g (?out @ rest) = Inr (Some (word_of_nat (bcd_acc 0 ?out)), length ?out)"
    by (rule scan_D_be_val) (use assms(7-10) ok acc n31 in auto)
  then show ?thesis using p acc by simp
qed

text \<open>
  C19: packed BCD output, little endian (\<open>%#D\<close>, default precision, width
  at most 4): because \<open>len\<close> starts at -1 the least significant digit pair
  is stored at \<open>buffer[-1]\<close>, before the field, and the field holds the other
  three pairs shifted down by one byte with a zero byte on top, so the value
  printed is not the value given.
\<close>

theorem print_D_le_shifted:
  assumes "dprec f = -1" "FAlt \<in> dflags f" "FSign \<notin> dflags f" "dwidth f \<le> 4" "4 < bs" "raw < 100000000"
  shows "print_D f raw bs = Inr (Some (bcd_byte_of (unat raw) 0), map (bcd_byte_of (unat raw)) [1..<4] @ [0])"
proof -
  let ?n = "unat raw"
  have n31: "?n < 2 ^ 31" using assms(6) by (simp add: word_less_nat_alt)
  have b: "bcd_loop 0 8 raw (replicate 6 0) = map (bcd_byte_of ?n) [0..<4] @ replicate 2 0"
    using bcd_loop_pairs [of 0 4 ?n, OF _ n31] by simp
  have w: "max ((8 + 1) sdiv 2) (int (dwidth f)) = 4" using assms(4) by simp
  have "\<not> int bs \<le> 4" using assms(5) by simp
  then show ?thesis
    by (simp only: print_D_def Let_def assms(1) simp_thms(6) if_True if_False w assms(2,3))
       (simp add: b upt_conv_Cons nth_append list_update_append)
qed

end
