(* ===== verification/DevStream.thy ===== *)
theory DevStream
  imports Buffer Converters
begin

text \<open>
  Input reception of the EPICS 3.13 device support
  (\<open>devStreamReceive\<close> in \<open>src/streamDeviceApp/src/devStream.c\<close>): the bus
  hands over a chunk of input, which is appended to \<open>ioBuffer\<close>, NUL
  terminated, and searched for the input terminator. \<open>ioBuffer\<close> is the
  allocation of \<open>bufferSize\<close> bytes that \<open>devStreamInitRecord\<close> makes with
  \<open>malloc\<close>; a write outside it is the result \<open>Undefined\<close>.
\<close>

section \<open>State\<close>

text \<open>
  The members of \<open>streamPrivate_t\<close> that reception reads and writes:
  the I/O buffer and \<open>length\<close>, \<open>status\<close> (\<open>None\<close> is \<open>NO_ALARM\<close>),
  \<open>public.acceptInput\<close>, and whether the watchdog was cancelled and the
  completion callback requested.
\<close>

record rx =
  iobuf :: "byte list"
  rlength :: nat
  rstatus :: "dev_error option"
  acceptInput :: bool
  wd_cancelled :: bool
  cb_requested :: bool

text \<open>\<open>memcpy(m + a, src, |src|)\<close> into an allocation of fixed size.\<close>

definition mem_write :: "byte list \<Rightarrow> nat \<Rightarrow> byte list \<Rightarrow> dev_error + byte list" where
  "mem_write m a src =
     (if length m < a + length src then Inl Undefined else Inr (take a m @ src @ drop (a + length src) m))"

section \<open>Terminator search\<close>

text \<open>
  The terminator \<open>tm\<close> is \<open>inTerminator[1..n]\<close> (\<open>inTerminator[0] = n\<close>).
  The inner loop \<open>while (--termindex)\<close> compares the bytes before the last
  terminator byte at \<open>e\<close>, backwards, and fails when it would step before
  the buffer start.
\<close>

fun term_back :: "byte list \<Rightarrow> byte list \<Rightarrow> nat \<Rightarrow> nat \<Rightarrow> bool" where
  "term_back buf tm e 0 = True"
| "term_back buf tm e (Suc j) = (if e = 0 then False else byte_at buf (e - 1) = tm ! j \<and> term_back buf tm (e - 1) j)"

text \<open>
  The outer loop: \<open>memchr\<close> for the last terminator byte in the new data
  below \<open>hi\<close>, then the backward comparison; the result is the index of
  the first terminator byte (\<open>endPtr\<close>).
\<close>

function term_search :: "byte list \<Rightarrow> byte list \<Rightarrow> nat \<Rightarrow> nat \<Rightarrow> nat option" where
  "term_search buf tm hi i =
     (case memchr_from (byte_at buf) hi (last tm) i of
        None \<Rightarrow> None
      | Some k \<Rightarrow> if term_back buf tm k (length tm - 1) then Some (Suc k - length tm)
                  else term_search buf tm hi (Suc k))"
  by pat_completeness auto
termination
proof (relation "measure (\<lambda>(buf, tm, hi, i). hi - i)")
  fix buf tm :: "byte list" and hi i k :: nat
  assume "memchr_from (byte_at buf) hi (last tm) i = Some k"
  then have "i \<le> k \<and> k < hi" using memchr_from_Some by blast
  then show "((buf, tm, hi, Suc k), (buf, tm, hi, i)) \<in> measure (\<lambda>(buf, tm, hi, i). hi - i)" by (simp, linarith)
qed simp

section \<open>Reception\<close>

text \<open>
  The end of input: the watchdog is cancelled, \<open>acceptInput\<close> cleared and
  the record's callback requested.
\<close>

definition rx_finish :: "bool \<Rightarrow> 'a rx_scheme \<Rightarrow> 'a rx_scheme" where
  "rx_finish endflag s =
     (if endflag then s\<lparr>wd_cancelled := True, acceptInput := False, cb_requested := True\<rparr> else s)"

text \<open>
  \<open>devStreamReceive(public, data, dataSize, endflag)\<close> with the buffer size
  of the protocol, its input terminator, and whether the active command is
  \<open>IN\<close>. A chunk that does not fit is cut and ends the input with
  \<open>HW_LIMIT_ALARM\<close>; a terminator ends it with \<open>NO_ALARM\<close> and the length cut
  at the terminator. The function returns nothing.
\<close>

definition devStreamReceive :: "nat \<Rightarrow> byte list \<Rightarrow> bool \<Rightarrow> byte list \<Rightarrow> bool \<Rightarrow> 'a rx_scheme \<Rightarrow> dev_error + 'a rx_scheme" where
  "devStreamReceive bufferSize tm in_active data endflag s =
     (if \<not> in_active then Inr s
      else
        (let oldLength = rlength s;
             full = bufferSize < oldLength + length data;
             copy = (if full then take (bufferSize - oldLength) data else data);
             len1 = oldLength + length copy;
             s1 = s\<lparr>rstatus := (if full then Some HwLimitAlarm else rstatus s)\<rparr>;
             end1 = (endflag \<or> full)
         in case mem_write (iobuf s) oldLength copy of
              Inl e \<Rightarrow> Inl e
            | Inr b1 \<Rightarrow>
                (case mem_write b1 len1 [0] of
                   Inl e \<Rightarrow> Inl e
                 | Inr b2 \<Rightarrow>
                     (case (if tm = [] then None else term_search b2 tm len1 oldLength) of
                        None \<Rightarrow> Inr (rx_finish end1 (s1\<lparr>iobuf := b2, rlength := len1\<rparr>))
                      | Some e \<Rightarrow>
                          (case mem_write b2 e [0] of
                             Inl er \<Rightarrow> Inl er
                           | Inr b3 \<Rightarrow> Inr (rx_finish True (s1\<lparr>iobuf := b3, rlength := e, rstatus := None\<rparr>)))))))"

definition rx_wf :: "nat \<Rightarrow> 'a rx_scheme \<Rightarrow> bool" where
  "rx_wf bufferSize s \<longleftrightarrow> length (iobuf s) = bufferSize \<and> rlength s \<le> bufferSize"

text \<open>The terminator \<open>tm\<close> ends at index \<open>k\<close> of \<open>buf\<close>.\<close>

definition ends_at :: "byte list \<Rightarrow> byte list \<Rightarrow> nat \<Rightarrow> bool" where
  "ends_at buf tm k \<longleftrightarrow> length tm \<le> Suc k \<and> (\<forall>j < length tm. byte_at buf (Suc k - length tm + j) = tm ! j)"

declare term_search.simps [simp del]

section \<open>Lemmas on the terminator search\<close>

lemma term_back_iff: "term_back buf tm e j \<longleftrightarrow> j \<le> e \<and> (\<forall>t < j. byte_at buf (e - j + t) = tm ! t)"
proof (induction j arbitrary: e)
  case (Suc j)
  show ?case
  proof (cases e)
    case (Suc e')
    then show ?thesis using Suc.IH [of e'] by (auto simp: less_Suc_eq)
  qed simp
qed simp

lemma ends_at_term_back:
  "tm \<noteq> [] \<Longrightarrow> ends_at buf tm k \<longleftrightarrow> term_back buf tm k (length tm - 1) \<and> byte_at buf k = last tm"
proof -
  assume ne: "tm \<noteq> []"
  then obtain n where n: "length tm = Suc n" by (cases tm) auto
  have l: "last tm = tm ! n" using ne n by (simp add: last_conv_nth)
  show ?thesis
    unfolding ends_at_def term_back_iff n l by (auto simp: less_Suc_eq)
qed

lemma term_search_Some:
  "term_search buf tm hi i = Some p \<Longrightarrow> tm \<noteq> [] \<Longrightarrow>
   \<exists>k. p = Suc k - length tm \<and> i \<le> k \<and> k < hi \<and> ends_at buf tm k \<and> (\<forall>j. i \<le> j \<and> j < k \<longrightarrow> \<not> ends_at buf tm j)"
proof (induction buf tm hi i rule: term_search.induct)
  case (1 buf tm hi i)
  obtain k where k: "memchr_from (byte_at buf) hi (last tm) i = Some k"
    using "1.prems"(1) by (cases "memchr_from (byte_at buf) hi (last tm) i") (simp_all add: term_search.simps [of buf tm hi i])
  note m = memchr_from_Some [OF k]
  show ?case
  proof (cases "term_back buf tm k (length tm - 1)")
    case True
    then show ?thesis using "1.prems" k m ends_at_term_back [OF "1.prems"(2)]
      by (auto simp: term_search.simps [of buf tm hi i])
  next
    case False
    then have r: "term_search buf tm hi (Suc k) = Some p" using "1.prems"(1) k by (simp add: term_search.simps [of buf tm hi i])
    obtain k' where k': "p = Suc k' - length tm" "Suc k \<le> k'" "k' < hi" "ends_at buf tm k'"
      "\<forall>j. Suc k \<le> j \<and> j < k' \<longrightarrow> \<not> ends_at buf tm j"
      using "1.IH" [OF k False r "1.prems"(2)] by blast
    have "\<not> ends_at buf tm j" if "i \<le> j" "j < k'" for j
    proof (cases "j < k")
      case True then show ?thesis using m that ends_at_term_back [OF "1.prems"(2)] by auto
    next
      case False
      then show ?thesis using k'(5) that False ends_at_term_back [OF "1.prems"(2)] \<open>\<not> term_back buf tm k (length tm - 1)\<close>
        by (cases "j = k") auto
    qed
    then show ?thesis using k' m by (intro exI [of _ k']) auto
  qed
qed

lemma term_search_None:
  "term_search buf tm hi i = None \<Longrightarrow> tm \<noteq> [] \<Longrightarrow> i \<le> j \<Longrightarrow> j < hi \<Longrightarrow> \<not> ends_at buf tm j"
proof (induction buf tm hi i rule: term_search.induct)
  case (1 buf tm hi i)
  show ?case
  proof (cases "memchr_from (byte_at buf) hi (last tm) i")
    case None
    then show ?thesis using memchr_from_None [OF None "1.prems"(3,4)] ends_at_term_back [OF "1.prems"(2)] by auto
  next
    case (Some k)
    note m = memchr_from_Some [OF Some]
    have nb: "\<not> term_back buf tm k (length tm - 1)" and r: "term_search buf tm hi (Suc k) = None"
      using "1.prems"(1) Some by (auto simp: term_search.simps [of buf tm hi i] split: if_splits)
    show ?thesis
    proof (cases "j \<le> k")
      case True
      then show ?thesis using m nb "1.prems"(3) ends_at_term_back [OF "1.prems"(2)] by (cases "j = k") auto
    next
      case False
      then show ?thesis using "1.IH" [OF Some nb r "1.prems"(2) _ "1.prems"(4)] by simp
    qed
  qed
qed

section \<open>Reception\<close>

lemma mem_write_ok:
  "a + length src \<le> length m \<Longrightarrow> mem_write m a src = Inr (take a m @ src @ drop (a + length src) m)"
  by (simp add: mem_write_def)

lemma mem_write_out: "length m < a + length src \<Longrightarrow> mem_write m a src = Inl Undefined"
  by (simp add: mem_write_def)

lemma mem_write_Inr:
  "mem_write m a src = Inr m' \<Longrightarrow> length m' = length m \<and> a + length src \<le> length m"
  by (auto simp: mem_write_def split: if_splits)

lemma rx_finish_fields [simp]:
  "iobuf (rx_finish f s) = iobuf s" "rlength (rx_finish f s) = rlength s"
  by (simp_all add: rx_finish_def)

lemma ends_at_cong:
  "(\<And>j. j \<le> k \<Longrightarrow> byte_at b j = byte_at c j) \<Longrightarrow> ends_at b tm k \<longleftrightarrow> ends_at c tm k"
proof -
  assume e: "\<And>j. j \<le> k \<Longrightarrow> byte_at b j = byte_at c j"
  have "byte_at b (Suc k - length tm + j) = byte_at c (Suc k - length tm + j)"
    if "length tm \<le> Suc k" "j < length tm" for j
    using that by (intro e) linarith
  then show ?thesis unfolding ends_at_def by auto
qed

text \<open>The buffer after a chunk that fits and its NUL are written.\<close>

lemma rx_written:
  assumes "rx_wf bs s" "rlength s + length data < bs"
  defines "c \<equiv> take (rlength s) (iobuf s) @ data"
  defines "b2 \<equiv> c @ 0 # drop (Suc (rlength s + length data)) (iobuf s)"
  shows "mem_write (iobuf s) (rlength s) data = Inr (c @ drop (rlength s + length data) (iobuf s))"
    and "mem_write (c @ drop (rlength s + length data) (iobuf s)) (rlength s + length data) [0] = Inr b2"
    and "length b2 = bs" "\<And>j. j < rlength s + length data \<Longrightarrow> byte_at b2 j = byte_at c j"
    and "take (rlength s + length data) b2 = c"
proof -
  have l: "length c = rlength s + length data" using assms(1,2) by (simp add: c_def rx_wf_def)
  show "mem_write (iobuf s) (rlength s) data = Inr (c @ drop (rlength s + length data) (iobuf s))"
    using assms(1,2) by (simp add: mem_write_def rx_wf_def c_def)
  show "mem_write (c @ drop (rlength s + length data) (iobuf s)) (rlength s + length data) [0] = Inr b2"
    using assms(1,2) l by (simp add: mem_write_def rx_wf_def b2_def)
  show "length b2 = bs" using assms(1,2) l by (simp add: b2_def rx_wf_def)
  show "byte_at b2 j = byte_at c j" if "j < rlength s + length data" for j
    using that l by (simp add: b2_def byte_at_def nth_append)
  show "take (rlength s + length data) b2 = c" using l by (simp add: b2_def)
qed

text \<open>
  C20: A chunk that fills the buffer exactly or overflows it makes
  \<open>devStreamReceive\<close> write the terminating NUL at \<open>ioBuffer[bufferSize]\<close>,
  one byte past the allocation.
\<close>

theorem rx_fill_overflows:
  assumes "rx_wf bs s" "bs \<le> rlength s + length data"
  shows "devStreamReceive bs tm True data endflag s = Inl Undefined"
proof -
  let ?old = "rlength s"
  let ?copy = "if bs < ?old + length data then take (bs - ?old) data else data"
  have lc: "?old + length ?copy = bs" using assms by (auto simp: rx_wf_def)
  have w1: "mem_write (iobuf s) ?old ?copy = Inr (take ?old (iobuf s) @ ?copy @ drop bs (iobuf s))"
    using mem_write_ok [of ?old ?copy "iobuf s"] lc assms(1) by (simp add: rx_wf_def)
  have "length (take ?old (iobuf s) @ ?copy @ drop bs (iobuf s)) = bs"
    using lc assms(1) by (auto simp: rx_wf_def)
  then have w2: "mem_write (take ?old (iobuf s) @ ?copy @ drop bs (iobuf s)) bs [0] = Inl Undefined"
    by (simp add: mem_write_out)
  show ?thesis
    unfolding devStreamReceive_def Let_def using w1 w2 lc by simp
qed

text \<open>
  C21: Input terminator: when the first end of the terminator in the new
  data is at index \<open>k\<close> of the buffer content, reception cuts the length at
  the terminator's start, keeps the content before it, ends the input
  (\<open>acceptInput\<close> cleared, callback requested) with \<open>NO_ALARM\<close>. The bytes
  behind the terminator are dropped: nothing reports how many bytes were
  consumed.
\<close>

theorem rx_terminator:
  assumes wf: "rx_wf bs s" and fits: "rlength s + length data < bs" and tm: "tm \<noteq> []"
      and k: "rlength s \<le> k" "k < rlength s + length data" "ends_at (take (rlength s) (iobuf s) @ data) tm k"
      and first: "\<forall>j. rlength s \<le> j \<and> j < k \<longrightarrow> \<not> ends_at (take (rlength s) (iobuf s) @ data) tm j"
  shows "\<exists>s'. devStreamReceive bs tm True data endflag s = Inr s' \<and> rlength s' = Suc k - length tm
           \<and> take (rlength s') (iobuf s') = take (Suc k - length tm) (take (rlength s) (iobuf s) @ data)
           \<and> rstatus s' = None \<and> \<not> acceptInput s' \<and> cb_requested s'"
proof -
  let ?c = "take (rlength s) (iobuf s) @ data" and ?L = "rlength s + length data"
  let ?b2 = "?c @ 0 # drop (Suc ?L) (iobuf s)"
  note w = rx_written [OF wf fits]
  have same: "ends_at ?b2 tm j \<longleftrightarrow> ends_at ?c tm j" if "j < ?L" for j
    by (rule ends_at_cong) (use w(4) that in simp)
  have ts: "term_search ?b2 tm ?L (rlength s) = Some (Suc k - length tm)"
  proof (cases "term_search ?b2 tm ?L (rlength s)")
    case None
    then show ?thesis using term_search_None [OF None tm k(1,2)] same k by simp
  next
    case (Some p)
    from term_search_Some [OF Some tm] obtain k' where k': "p = Suc k' - length tm \<and> rlength s \<le> k' \<and> k' < ?L
        \<and> ends_at ?b2 tm k' \<and> (\<forall>j. rlength s \<le> j \<and> j < k' \<longrightarrow> \<not> ends_at ?b2 tm j)" ..
    have "k' = k"
      using k' k first same by (metis linorder_neqE_nat)
    then show ?thesis using Some k' by simp
  qed
  have e: "Suc k - length tm < bs" using k fits by linarith
  have w3: "mem_write ?b2 (Suc k - length tm) [0] = Inr (take (Suc k - length tm) ?b2 @ [0] @ drop (Suc (Suc k - length tm)) ?b2)"
    using e w(3) by (simp add: mem_write_def)
  have t: "take (Suc k - length tm) ?b2 = take (Suc k - length tm) ?c"
  proof -
    have "length ?c = ?L" using wf fits by (simp add: rx_wf_def)
    moreover have "Suc k - length tm \<le> ?L" using k(2) by linarith
    ultimately show ?thesis by simp
  qed
  define nb where "nb = take (Suc k - length tm) ?b2 @ [0] @ drop (Suc (Suc k - length tm)) ?b2"
  have "take (Suc k - length tm) nb = take (Suc k - length tm) ?b2"
    unfolding nb_def by (rule take_prefix_append) (use e w(3) in simp)
  then have tn: "take (Suc k - length tm) nb = take (Suc k - length tm) ?c" using t by simp
  have "devStreamReceive bs tm True data endflag s
        = Inr (rx_finish True (s\<lparr>iobuf := nb, rlength := Suc k - length tm, rstatus := None\<rparr>))"
    unfolding devStreamReceive_def Let_def nb_def using fits w(1,2) ts w3 tm by simp
  then show ?thesis using tn by (simp add: rx_finish_def)
qed

text \<open>
  partial input: a chunk that fits and does not complete a
  terminator is appended to the content, the status is kept, and the input
  ends only when the bus says so (\<open>endflag\<close>).
\<close>

theorem rx_accumulates:
  assumes wf: "rx_wf bs s" and fits: "rlength s + length data < bs"
      and none: "\<forall>j. rlength s \<le> j \<and> j < rlength s + length data \<longrightarrow> \<not> ends_at (take (rlength s) (iobuf s) @ data) tm j"
  shows "\<exists>s'. devStreamReceive bs tm True data endflag s = Inr s' \<and> rlength s' = rlength s + length data
           \<and> take (rlength s') (iobuf s') = take (rlength s) (iobuf s) @ data \<and> rx_wf bs s'
           \<and> rstatus s' = rstatus s \<and> acceptInput s' = (acceptInput s \<and> \<not> endflag) \<and> cb_requested s' = (cb_requested s \<or> endflag)"
proof -
  let ?c = "take (rlength s) (iobuf s) @ data" and ?L = "rlength s + length data"
  let ?b2 = "take (rlength s) (iobuf s) @ data @ 0 # drop (Suc ?L) (iobuf s)"
  note w = rx_written [OF wf fits]
  have ts: "tm \<noteq> [] \<Longrightarrow> term_search ?b2 tm ?L (rlength s) = None"
  proof -
    assume False: "tm \<noteq> []"
    show ?thesis
    proof (cases "term_search ?b2 tm ?L (rlength s)")
      case (Some p)
      from term_search_Some [OF Some False] obtain k where k: "rlength s \<le> k \<and> k < ?L \<and> ends_at ?b2 tm k" by blast
      have "ends_at ?c tm k" using k ends_at_cong [of k ?b2 ?c tm] w(4) by auto
      then show ?thesis using k none by blast
    qed
  qed
  have "devStreamReceive bs tm True data endflag s = Inr (rx_finish endflag (s\<lparr>iobuf := ?b2, rlength := ?L\<rparr>))"
    unfolding devStreamReceive_def Let_def using fits w(1,2) ts by simp
  then show ?thesis using w(3,5) by (simp add: rx_finish_def rx_wf_def)
qed

text \<open>
  Every reception that does not run into undefined behaviour keeps
  the reception state well formed: the I/O buffer keeps its allocated size
  and the received length stays within it, on every branch (chunk cut at
  the buffer size, terminator found, input accumulated).
\<close>

theorem rx_receive_wf:
  assumes "rx_wf bs s" and "devStreamReceive bs tm in_active data endflag s = Inr s'"
  shows "rx_wf bs s'"
  using assms unfolding devStreamReceive_def rx_wf_def Let_def
  by (auto split: if_splits sum.splits option.splits dest!: mem_write_Inr)

end
