(* ===== verification/BufferEdit.thy ===== *)
theory BufferEdit
  imports Buffer
begin

text \<open>
  Initialisation and in-place editing of \<open>StreamBuffer\<close>
  (\<open>StreamBuffer::init\<close> and \<open>StreamBuffer::replace\<close> in
  \<open>src/StreamDevice-2.0/src/StreamBuffer.cc\<close>), on the storage model of
  theory \<open>Buffer\<close>.
\<close>

section \<open>init\<close>

text \<open>
  \<open>init(s, minsize)\<close> starts on the inline array \<open>local\<close>, whose bytes
  \<open>loc\<close> are whatever the object's memory held; \<open>s = NULL\<close> is \<open>None\<close>.
  Copying \<open>minsize\<close> bytes from a shorter source reads past it
  (\<open>OutOfBounds\<close>).
\<close>

definition sb_init :: "byte list \<Rightarrow> byte list option \<Rightarrow> int \<Rightarrow> sb_error + sbuf" where
  "sb_init loc s minsize =
     (let b0 = \<lparr>buffer = loc, offs = 0, len = 0, cap = local_size\<rparr>;
          m = max 0 minsize
      in case (if cap b0 \<le> m then sb_grow m b0
               else Inr (b0\<lparr>buffer := mem_set loc (nat m) (nat (cap b0 - m))\<rparr>)) of
           Inl e \<Rightarrow> Inl e
         | Inr b1 \<Rightarrow>
             (case s of
                None \<Rightarrow> Inr b1
              | Some src \<Rightarrow>
                  if int (length src) < m then Inl OutOfBounds
                  else Inr (b1\<lparr>len := m, buffer := mem_copy (buffer b1) 0 (take (nat m) src)\<rparr>)))"

section \<open>replace\<close>

text \<open>\<open>memmove(m + dst, m + src, n)\<close>.\<close>

definition mem_move :: "byte list \<Rightarrow> nat \<Rightarrow> nat \<Rightarrow> nat \<Rightarrow> byte list" where
  "mem_move m dst src n = mem_copy m dst (take n (drop src m))"

text \<open>
  The argument normalisation of \<open>replace(remstart, remlen, ins, inslen)\<close>:
  negative \<open>remstart\<close> counts from the end, negative \<open>remlen\<close> removes left
  of \<open>remstart\<close>, negative \<open>inslen\<close> removes more, and the range is clipped
  to the content. The result is \<open>(remstart, remlen, inslen)\<close>.
\<close>

definition replace_range :: "int \<Rightarrow> int \<Rightarrow> int \<Rightarrow> int \<Rightarrow> int \<times> int \<times> int" where
  "replace_range l remstart0 remlen0 inslen0 =
     (let rs1 = (if remstart0 < 0 then remstart0 + l else remstart0);
          (rs2, rl2) = (if remlen0 < 0 then (rs1 + remlen0, - remlen0) else (rs1, remlen0));
          (rs3, rl3, il3) = (if inslen0 < 0 then (rs2 + inslen0, rl2 - inslen0, 0) else (rs2, rl2, inslen0));
          (rs4, rl4) = (if rs3 < 0 then (0, rl3 + rs3) else (rs3, rl3));
          rs5 = (if l < rs4 then l else rs4);
          rl5 = (if l - rs5 \<le> rl4 then l - rs5 else rl4)
      in (rs5, rl5, il3))"

text \<open>
  The edit itself: removal at the start only moves \<open>offs\<close>; otherwise a new
  buffer when the result does not fit (\<open>cap <= newlen\<close>), an edit in place
  when it fits behind \<open>offs\<close>, and else an edit that moves the content to
  the buffer start. A negative remaining \<open>remlen\<close> or an \<open>ins\<close> shorter than
  \<open>inslen\<close> makes the \<open>memcpy\<close>s read out of bounds.
\<close>

definition sb_replace :: "int \<Rightarrow> int \<Rightarrow> byte list \<Rightarrow> int \<Rightarrow> sbuf \<Rightarrow> sb_error + sbuf" where
  "sb_replace remstart0 remlen0 ins inslen0 b =
     (let (rs, rl, il) = replace_range (len b) remstart0 remlen0 inslen0
      in if il = 0 \<and> rs = 0 then Inr (b\<lparr>offs := offs b + rl\<rparr>)
      else if rl < 0 \<or> int (length ins) < il then Inl OutOfBounds
      else
        (let remend = rs + rl;
             newlen = len b + il - rl;
             tl_len = len b - remend
         in if cap b \<le> newlen then
              (let newcap = newcap_loop newlen 0
               in Inr (b\<lparr>buffer := take (nat rs) (drop (nat (offs b)) (buffer b)) @ take (nat il) ins
                                    @ take (nat tl_len) (drop (nat (offs b + remend)) (buffer b))
                                    @ replicate (nat (newcap - newlen)) 0,
                          cap := newcap, offs := 0, len := newlen\<rparr>))
            else if newlen + offs b \<le> cap b then
              (let m1 = mem_move (buffer b) (nat (offs b + rs + il)) (nat (offs b + remend)) (nat tl_len);
                   m2 = mem_copy m1 (nat (offs b + rs)) (take (nat il) ins);
                   m3 = (if newlen < len b then mem_set m2 (nat (offs b + newlen)) (nat (len b - newlen)) else m2)
               in Inr (b\<lparr>buffer := m3, len := newlen\<rparr>))
            else
              (let m1 = mem_move (buffer b) 0 (nat (offs b)) (nat rs);
                   m2 = mem_move m1 (nat (rs + il)) (nat (offs b + remend)) (nat tl_len);
                   m3 = mem_copy m2 (nat rs) (take (nat il) ins);
                   m4 = (if newlen < len b then mem_set m3 (nat newlen) (nat (len b - newlen)) else m3)
               in Inr (b\<lparr>buffer := m4, len := newlen, offs := 0\<rparr>))))"

text \<open>The bounds part of \<open>sb_inv\<close>, without the zero fill behind the content.\<close>

definition sb_bounds :: "sbuf \<Rightarrow> bool" where
  "sb_bounds b \<longleftrightarrow> 0 \<le> offs b \<and> 0 \<le> len b \<and> offs b + len b \<le> cap b \<and> length (buffer b) = nat (cap b)"

text \<open>The content after replacing \<open>rl\<close> bytes at \<open>rs\<close> by the first \<open>il\<close> bytes of \<open>ins\<close>.\<close>

definition splice :: "byte list \<Rightarrow> nat \<Rightarrow> nat \<Rightarrow> byte list \<Rightarrow> byte list" where
  "splice c rs rl ins = take rs c @ ins @ drop (rs + rl) c"

section \<open>replace refines splicing\<close>

lemma replace_range_normal:
  "0 \<le> rs \<Longrightarrow> rs \<le> l \<Longrightarrow> 0 \<le> rl \<Longrightarrow> 0 \<le> il \<Longrightarrow> replace_range l rs rl il = (rs, min rl (l - rs), il)"
  by (simp add: replace_range_def Let_def min_def)

lemma nth_mem_move:
  "i < length m \<Longrightarrow> mem_move m dst src n ! i
     = (if dst \<le> i \<and> i < dst + min n (length m - src) then m ! (src + (i - dst)) else m ! i)"
  by (auto simp: mem_move_def nth_mem_copy)

lemma length_mem_move [simp]: "length (mem_move m dst src n) = length m"
  by (simp add: mem_move_def)

text \<open>The in-place edit keeps the bytes before \<open>offs\<close> and puts the splice behind it.\<close>

lemma inplace_contents:
  assumes "ofs + L \<le> length B" "r + q \<le> L" "ofs + (L + length I - q) \<le> length B"
  defines "nl \<equiv> L + length I - q"
  defines "m2 \<equiv> mem_copy (mem_move B (ofs + r + length I) (ofs + (r + q)) (L - (r + q))) (ofs + r) I"
  shows "take nl (drop ofs (if nl < L then mem_set m2 (ofs + nl) (L - nl) else m2))
         = take r (take L (drop ofs B)) @ I @ drop (r + q) (take L (drop ofs B))"
proof (rule nth_equalityI)
  show "length (take nl (drop ofs (if nl < L then mem_set m2 (ofs + nl) (L - nl) else m2)))
        = length (take r (take L (drop ofs B)) @ I @ drop (r + q) (take L (drop ofs B)))"
    using assms(1-3) by (simp add: m2_def nl_def)
next
  fix j assume "j < length (take nl (drop ofs (if nl < L then mem_set m2 (ofs + nl) (L - nl) else m2)))"
  then have j: "j < nl" and jb: "ofs + j < length B" using assms(1-3) by (simp_all add: m2_def nl_def)
  have lhs: "take nl (drop ofs (if nl < L then mem_set m2 (ofs + nl) (L - nl) else m2)) ! j = m2 ! (ofs + j)"
    using j jb by (simp add: nth_mem_set m2_def)
  have mn: "min (L - (r + q)) (length B - (ofs + (r + q))) = L - (r + q)" using assms(1,2) by simp
  have m2: "m2 ! (ofs + j) = (if r \<le> j \<and> j < r + length I then I ! (j - r)
                             else if r + length I \<le> j then B ! (ofs + (r + q) + (j - r - length I)) else B ! (ofs + j))"
    using j jb unfolding m2_def nl_def by (auto simp: nth_mem_copy nth_mem_move mn)
  have rb: "min (length B - ofs) r = r" "min (length B - ofs) L = L" using assms(1,2) by auto
  show "take nl (drop ofs (if nl < L then mem_set m2 (ofs + nl) (L - nl) else m2)) ! j
        = (take r (take L (drop ofs B)) @ I @ drop (r + q) (take L (drop ofs B))) ! j"
  proof (cases "j < r")
    case True
    have "j < length B - ofs" using jb by linarith
    then show ?thesis using True lhs m2 assms(2) by (simp add: nth_append)
  next
    case False
    show ?thesis
    proof (cases "j < r + length I")
      case True
      then have "j - r < length I" using False by linarith
      then show ?thesis using True lhs m2 False assms(2) rb by (simp add: nth_append)
    next
      case False': False
      have "j - r - length I < L - (r + q)" "\<not> j - r < length I" using j False' unfolding nl_def by linarith+
      then show ?thesis using lhs m2 False False' assms(1,2) rb by (simp add: nth_append add.assoc)
    qed
  qed
qed

text \<open>The edit that moves the content to the buffer start puts the splice at 0.\<close>

lemma tostart_contents:
  assumes "ofs + L \<le> length B" "r + q \<le> L" "L + length I - q \<le> length B"
  defines "nl \<equiv> L + length I - q"
  defines "m3 \<equiv> mem_copy (mem_move (mem_move B 0 ofs r) (r + length I) (ofs + (r + q)) (L - (r + q))) r I"
  shows "take nl (if nl < L then mem_set m3 nl (L - nl) else m3)
         = take r (take L (drop ofs B)) @ I @ drop (r + q) (take L (drop ofs B))"
proof (rule nth_equalityI)
  show "length (take nl (if nl < L then mem_set m3 nl (L - nl) else m3))
        = length (take r (take L (drop ofs B)) @ I @ drop (r + q) (take L (drop ofs B)))"
    using assms(1-3) by (simp add: m3_def nl_def)
next
  fix j assume "j < length (take nl (if nl < L then mem_set m3 nl (L - nl) else m3))"
  then have j: "j < nl" and jb: "j < length B" using assms(1-3) by (simp_all add: m3_def nl_def)
  have lhs: "take nl (if nl < L then mem_set m3 nl (L - nl) else m3) ! j = m3 ! j"
    using j jb by (simp add: nth_mem_set m3_def)
  have mn: "min (L - (r + q)) (length B - (ofs + (r + q))) = L - (r + q)" "min r (length B - ofs) = r"
    using assms(1,2) by simp_all
  have m3: "m3 ! j = (if r \<le> j \<and> j < r + length I then I ! (j - r)
                      else if r + length I \<le> j then B ! (ofs + (r + q) + (j - r - length I)) else B ! (ofs + j))"
    using j jb assms(1,2) unfolding m3_def nl_def by (auto simp: nth_mem_copy nth_mem_move mn)
  have rb: "min (length B - ofs) r = r" "min (length B - ofs) L = L" using assms(1,2) by auto
  show "take nl (if nl < L then mem_set m3 nl (L - nl) else m3) ! j
        = (take r (take L (drop ofs B)) @ I @ drop (r + q) (take L (drop ofs B))) ! j"
  proof (cases "j < r")
    case True
    have "j < length B - ofs" using True assms(1,2) by linarith
    then show ?thesis using True lhs m3 assms(2) by (simp add: nth_append)
  next
    case False
    show ?thesis
    proof (cases "j < r + length I")
      case True
      then have "j - r < length I" using False by linarith
      then show ?thesis using True lhs m3 False assms(2) rb by (simp add: nth_append)
    next
      case False': False
      have "j - r - length I < L - (r + q)" "\<not> j - r < length I" using j False' unfolding nl_def by linarith+
      then show ?thesis using lhs m3 False False' assms(1,2) rb by (simp add: nth_append add.assoc)
    qed
  qed
qed

text \<open>
  C22: \<open>replace\<close> with a start inside the content, non-negative lengths and
  enough bytes to insert (other than a pure removal at the start) succeeds
  and leaves the content spliced: the removed range, clipped to the content,
  replaced by the inserted bytes, with the buffer bounds kept.
\<close>

theorem sb_replace_splice:
  assumes inv: "sb_inv b" and r: "0 \<le> rs" "rs \<le> len b" and q: "0 \<le> rl"
      and i: "0 \<le> il" "il \<le> int (length ins)" and nz: "0 < rs \<or> 0 < il"
  shows "\<exists>b'. sb_replace rs rl ins il b = Inr b' \<and> sb_bounds b'
              \<and> contents b' = splice (contents b) (nat rs) (nat rl) (take (nat il) ins)"
proof -
  define q' where "q' = min rl (len b - rs)"
  have rr: "replace_range (len b) rs rl il = (rs, q', il)"
    using r q i by (simp add: replace_range_normal q'_def)
  have q'0: "0 \<le> q'" using q r by (simp add: q'_def)
  have o: "0 \<le> offs b" and l: "0 \<le> len b" and oc: "offs b + len b \<le> cap b" and lb: "length (buffer b) = nat (cap b)"
    using inv by (simp_all add: sb_inv_def)
  define ofs where "ofs = nat (offs b)"
  define L where "L = nat (len b)"
  define R where "R = nat rs"
  define Q where "Q = nat q'"
  define I where "I = take (nat il) ins"
  have lI: "length I = nat il" using i by (simp add: I_def)
  have B: "ofs + L \<le> length (buffer b)" "R + Q \<le> L" using sb_inv_nat [OF inv] r q'0 q'_def
    by (simp_all add: ofs_def L_def R_def Q_def)
  have c: "contents b = take L (drop ofs (buffer b))" by (simp add: contents_def ofs_def L_def)
  have sp: "splice (contents b) (nat rs) (nat rl) (take (nat il) ins) = take R (contents b) @ I @ drop (R + Q) (contents b)"
  proof (cases "rl \<le> len b - rs")
    case True then show ?thesis by (simp add: splice_def q'_def R_def Q_def I_def)
  next
    case False
    then have "length (contents b) \<le> R + Q" "length (contents b) \<le> R + nat rl"
      using length_contents [OF inv] r by (simp_all add: q'_def R_def Q_def)
    then show ?thesis by (simp add: splice_def I_def R_def)
  qed
  have nats: "nat (offs b + rs + il) = ofs + R + length I" "nat (offs b + (rs + q')) = ofs + (R + Q)"
    "nat (len b - (rs + q')) = L - (R + Q)" "nat (offs b + rs) = ofs + R" "nat (rs + il) = R + length I"
    "nat (len b + il - q') = L + length I - Q" "nat rs = R" "nat il = length I"
    using o l r q'0 i B(2) lI by (simp_all add: ofs_def L_def R_def Q_def nat_add_distrib nat_diff_distrib)
  have oI: "nat (offs b) = ofs" "take (length I) ins = I" using lI by (simp_all add: ofs_def I_def)
  have nd: "\<not> (il = 0 \<and> rs = 0)" "\<not> (q' < 0 \<or> int (length ins) < il)" using nz q'0 i by auto
  let ?nl = "len b + il - q'"
  have nl: "?nl = int (L + length I - Q)" "0 \<le> ?nl" using nats(6) B(2) l i q'0 lI
    by (simp_all add: L_def Q_def)
  have tk: "take R (take L (drop ofs (buffer b))) @ I @ drop (R + Q) (take L (drop ofs (buffer b)))
            = take R (contents b) @ I @ drop (R + Q) (contents b)" by (simp add: c)
  have lL: "len b = int L" using l by (simp add: L_def)
  have nl3: "nat (offs b + int (L + length I - Q)) = ofs + (L + length I - Q)"
    "nat (len b - int (L + length I - Q)) = L - (L + length I - Q)"
    "(int (L + length I - Q) < len b) = (L + length I - Q < L)"
    using o by (simp_all only: lL of_nat_less_iff ofs_def nat_add_distrib nat_int nat_diff_distrib of_nat_0_le_iff)
  consider (fresh) "cap b \<le> ?nl" | (inplace) "\<not> cap b \<le> ?nl" "?nl + offs b \<le> cap b"
         | (tostart) "\<not> cap b \<le> ?nl" "\<not> ?nl + offs b \<le> cap b" by blast
  then show ?thesis
  proof cases
    case fresh
    define nc where "nc = newcap_loop ?nl 0"
    have gt: "?nl < nc" using newcap_gt by (simp add: nc_def)
    define B' where "B' = take R (drop ofs (buffer b)) @ I @ take (L - (R + Q)) (drop (ofs + (R + Q)) (buffer b))
                          @ replicate (nat (nc - ?nl)) 0"
    have e: "sb_replace rs rl ins il b = Inr (b\<lparr>buffer := B', cap := nc, offs := 0, len := ?nl\<rparr>)"
      using fresh by (simp add: sb_replace_def rr Let_def nd nats B'_def nc_def oI)
    have X: "take R (drop ofs (buffer b)) = take R (contents b)" using B(2) by (simp add: c)
    have Y: "take (L - (R + Q)) (drop (ofs + (R + Q)) (buffer b)) = drop (R + Q) (contents b)"
      by (simp add: c drop_take add.commute)
    have lX: "length (take R (drop ofs (buffer b))) = R" "length (take (L - (R + Q)) (drop (ofs + (R + Q)) (buffer b))) = L - (R + Q)"
      using B by simp_all
    have n: "nat ?nl = length (take R (drop ofs (buffer b))) + length I + length (take (L - (R + Q)) (drop (ofs + (R + Q)) (buffer b)))"
      using nl(1) lX B(2) by simp
    have "nat (nc - ?nl) + nat ?nl = nat nc" using gt nl(2) by (simp add: nat_add_distrib [symmetric])
    then have lB: "length B' = nat nc" unfolding B'_def using n by simp
    have "take (nat ?nl) B' = take R (contents b) @ I @ drop (R + Q) (contents b)"
      unfolding B'_def n by (simp only: append_assoc [symmetric] take_append take_all) (simp add: X Y)
    then show ?thesis using e lB gt nl(2) sp by (simp add: sb_bounds_def contents_def)
  next
    case inplace
    define m2 where "m2 = mem_copy (mem_move (buffer b) (ofs + R + length I) (ofs + (R + Q)) (L - (R + Q))) (ofs + R) I"
    define B' where "B' = (if L + length I - Q < L then mem_set m2 (ofs + (L + length I - Q)) (L - (L + length I - Q)) else m2)"
    have e: "sb_replace rs rl ins il b = Inr (b\<lparr>buffer := B', len := ?nl\<rparr>)"
      using inplace l nl by (simp add: sb_replace_def rr Let_def nd nats B'_def m2_def oI nl3)
    have fits: "ofs + (L + length I - Q) \<le> length (buffer b)" using inplace nl o lb by (simp add: ofs_def)
    have "take (L + length I - Q) (drop ofs B')
          = take R (take L (drop ofs (buffer b))) @ I @ drop (R + Q) (take L (drop ofs (buffer b)))"
      unfolding B'_def m2_def by (rule inplace_contents [OF B(1,2) fits])
    then have "take (L + length I - Q) (drop ofs B') = take R (contents b) @ I @ drop (R + Q) (contents b)"
      by (simp only: tk)
    moreover have "length B' = length (buffer b)" by (simp add: B'_def m2_def)
    ultimately show ?thesis using e nl o lb inplace sp by (simp add: sb_bounds_def contents_def ofs_def)
  next
    case tostart
    define m3 where "m3 = mem_copy (mem_move (mem_move (buffer b) 0 ofs R) (R + length I) (ofs + (R + Q)) (L - (R + Q))) R I"
    define B' where "B' = (if L + length I - Q < L then mem_set m3 (L + length I - Q) (L - (L + length I - Q)) else m3)"
    have e: "sb_replace rs rl ins il b = Inr (b\<lparr>buffer := B', len := ?nl, offs := 0\<rparr>)"
      using tostart l nl by (simp add: sb_replace_def rr Let_def nd nats B'_def m3_def oI nl3)
    have fits: "L + length I - Q \<le> length (buffer b)" using tostart nl lb by linarith
    have "take (L + length I - Q) B'
          = take R (take L (drop ofs (buffer b))) @ I @ drop (R + Q) (take L (drop ofs (buffer b)))"
      unfolding B'_def m3_def by (rule tostart_contents [OF B(1,2) fits])
    then have "take (L + length I - Q) B' = take R (contents b) @ I @ drop (R + Q) (contents b)"
      by (simp only: tk)
    moreover have "length B' = length (buffer b)" by (simp add: B'_def m3_def)
    ultimately show ?thesis using e nl lb tostart sp by (simp add: sb_bounds_def contents_def)
  qed
qed

text \<open>
  C23: Removal at the buffer start, the case \<open>replace\<close> optimises, only
  advances \<open>offs\<close> and keeps \<open>len\<close>: the content slides over the zero
  fill, and past the capacity when it was near the end of the buffer.
\<close>

theorem sb_replace_remove_front:
  assumes "0 < k" "k \<le> len b"
  shows "\<exists>b'. sb_replace 0 k ins 0 b = Inr b' \<and> len b' = len b \<and> offs b' = offs b + k
              \<and> (cap b < offs b + len b + k \<longrightarrow> \<not> sb_bounds b')"
proof -
  have "replace_range (len b) 0 k 0 = (0, k, 0)" using assms by (simp add: replace_range_normal)
  then show ?thesis by (simp add: sb_replace_def sb_bounds_def)
qed

section \<open>init\<close>

lemma sb_init_grow:
  assumes "local_size \<le> m" "m \<le> 10000"
  shows "sb_grow m \<lparr>buffer = loc, offs = 0, len = 0, cap = local_size\<rparr>
         = Inr \<lparr>buffer = replicate (nat (newcap_loop m 0)) 0, offs = 0, len = 0, cap = newcap_loop m 0\<rparr>"
  using assms by (simp add: sb_grow_def Let_def)

text \<open>
  \<open>init(s, minsize)\<close> with a source of at least \<open>minsize \<le> 10000\<close>
  bytes gives a well-formed buffer whose content is the first \<open>minsize\<close>
  source bytes, whatever the inline array held before.
\<close>

theorem sb_init_contents:
  assumes loc: "length loc = nat local_size" and m: "0 \<le> m" "m \<le> 10000" and src: "m \<le> int (length src)"
  shows "\<exists>b. sb_init loc (Some src) m = Inr b \<and> sb_inv b \<and> contents b = take (nat m) src"
proof (cases "local_size \<le> m")
  case True
  define nc where "nc = newcap_loop m 0"
  have gt: "m < nc" using newcap_gt by (simp add: nc_def)
  let ?b = "\<lparr>buffer = mem_copy (replicate (nat nc) 0) 0 (take (nat m) src), offs = 0, len = m, cap = nc\<rparr>"
  have e: "sb_init loc (Some src) m = Inr ?b"
    using True m src sb_init_grow [OF True m(2), of loc] by (simp add: sb_init_def nc_def)
  have "sb_inv ?b" using gt m src by (auto simp: sb_inv_def nth_mem_copy)
  moreover have "contents ?b = take (nat m) src"
    using gt m src by (intro nth_equalityI) (auto simp: contents_def nth_mem_copy min_def split: if_splits)
  ultimately show ?thesis using e by blast
next
  case False
  let ?b = "\<lparr>buffer = mem_copy (mem_set loc (nat m) (nat (local_size - m))) 0 (take (nat m) src), offs = 0, len = m, cap = local_size\<rparr>"
  have e: "sb_init loc (Some src) m = Inr ?b"
    using False m src by (simp add: sb_init_def)
  have "sb_inv ?b" using False m src loc by (auto simp: sb_inv_def nth_mem_copy nth_mem_set local_size_def)
  moreover have "contents ?b = take (nat m) src"
    using False m src loc by (intro nth_equalityI) (auto simp: contents_def nth_mem_copy min_def local_size_def split: if_splits)
  ultimately show ?thesis using e by blast
qed

text \<open>
  C24: \<open>init(NULL, minsize)\<close> with \<open>0 < minsize < 64\<close> clears the inline
  array only from \<open>minsize\<close> on: the empty buffer's first byte is whatever
  the memory held, so its content is not NUL terminated.
\<close>

theorem sb_init_null_unterminated:
  assumes loc: "length loc = nat local_size" and m: "0 < m" "m < local_size"
  shows "\<exists>b. sb_init loc None m = Inr b \<and> len b = 0 \<and> buffer b ! 0 = loc ! 0 \<and> (loc ! 0 \<noteq> 0 \<longrightarrow> \<not> sb_inv b)"
proof -
  have "sb_init loc None m = Inr \<lparr>buffer = mem_set loc (nat m) (nat (local_size - m)), offs = 0, len = 0, cap = local_size\<rparr>"
    using m by (simp add: sb_init_def)
  moreover have "mem_set loc (nat m) (nat (local_size - m)) ! 0 = loc ! 0"
    using loc m by (simp add: nth_mem_set local_size_def)
  ultimately show ?thesis using loc by (auto simp: sb_inv_def local_size_def intro!: exI [of _ 0])
qed

end
