(* ===== verification/DevEngine.thy ===== *)
theory DevEngine
  imports DevStream LockQueue
begin

text \<open>
  The protocol engine of the EPICS 3.13 device support
  (\<open>src/streamDeviceApp/src/devStream.c\<close>): \<open>startIo\<close>, \<open>nextIo\<close>, \<open>process\<close>
  and \<open>callback\<close>, the entry points \<open>devStreamRead\<close> and \<open>devStreamWrite\<close>,
  and the handlers the bus driver and the watchdog call. One stream is
  modelled; its bus channel is the lock queue of theory \<open>LockQueue\<close>, and
  reception is \<open>devStreamReceive\<close> of theory \<open>DevStream\<close>, applied to the
  extended stream state.

  The compiled protocol is a list of codes: the command codes, a format, the
  wildcard \<open>SKIP\<close>, an escaped byte and an ordinary byte. A format (the
  \<open>FORMAT\<close> byte, its length byte and the \<open>format_t\<close>) and an escaped byte
  (\<open>ESC\<close> and its byte) are one code each; \<open>WAIT\<close> and \<open>EVENT\<close> carry their
  \<open>ushort_t\<close> operand. Reading past the end reads the terminating \<open>NUL\<close>.

  \<open>nextIo\<close>, \<open>process\<close>, \<open>startIo\<close> and \<open>callback\<close> call each other
  synchronously (a finished record restarts an I/O Intr protocol, a
  completed command starts the next one), so they are one recursion with a
  fuel argument: \<open>None\<close> means the fuel ran out, \<open>Some (Inl Undefined)\<close> a
  write outside the I/O buffer, and a queue operation on a cyclic lock queue
  is \<open>None\<close> as in theory \<open>LockQueue\<close>.
\<close>

section \<open>Protocol codes, configuration and state\<close>

datatype phase = PhaseInit | PhaseReply | PhaseAsync | PhaseGotValue

text \<open>The record field types a format is resolved to (\<open>format->type\<close>; \<open>None\<close> is \<open>0xFF\<close>).\<close>

datatype dbf = DbfLong | DbfDouble | DbfString | DbfEnum

datatype dcode = DIn | DOut | DWait "16 word" | DEvent "16 word" | DNul
  | DFormat dformat "dbf option" | DSkip | DEsc byte | DChr byte

text \<open>What \<open>readData\<close> returns: \<open>OK\<close>, \<open>ERROR\<close> or \<open>DO_NOT_CONVERT\<close>.\<close>

datatype conv = ConvOK | ConvError | DoNotConvert

text \<open>The function a running watchdog calls when it expires.\<close>

datatype wdh = WdReplyTimeout | WdLockTimeout | WdCallback

text \<open>Calls into the bus interface and the record, in the order they happen.\<close>

datatype deff = StartProtocol | StopProtocol | StartInput | StopInput
  | WritePart "byte list" | RecordProcess "dev_error option"

text \<open>
  The stream: the fields of \<open>streamPrivate_t\<close> and \<open>stream_t\<close> the engine
  uses, extending those of reception, and the record's \<open>pact\<close> and \<open>udf\<close>.
  \<open>wdog\<close> is the last \<open>wdStart\<close> (milliseconds and function); it is armed
  unless \<open>wd_cancelled\<close>.
\<close>

record dstream = rx +
  code :: "dcode list"
  codeIndex :: nat
  activeCmd :: nat
  processed :: nat
  phase :: phase
  convert :: conv
  acceptEvent :: bool
  pact :: bool
  udf :: bool
  wdog :: "(nat \<times> wdh) option"
  deffects :: "deff list"

record dsys =
  lq :: lockq
  st :: dstream

text \<open>The parts of \<open>protocol_t\<close> the engine reads (terminators without their length byte).\<close>

record dproto =
  bufferSize :: nat
  out_terminator :: "byte list"
  in_terminator :: "byte list"
  lock_timeout :: nat
  reply_timeout :: nat
  ignoreExtra :: bool

text \<open>
  The configuration of the stream: its protocol, its number in the lock
  queue, whether the record is \<open>SCAN_IO_EVENT\<close>, which optional functions
  of \<open>streamBusInterface_t\<close> are not \<open>NULL\<close>, and the functions the engine
  calls through pointers. \<open>write_part\<close> is the bus's \<open>writePart\<close> (\<open>None\<close> is
  \<open>ERROR\<close>, else the number of bytes written). \<open>readData\<close> and \<open>writeData\<close>
  are the record's functions given to \<open>devStreamInitRecord\<close> (\<open>None\<close> is
  \<open>NULL\<close>): \<open>readData\<close> gets the format, its type, the buffer and
  \<open>processed\<close> and returns the status it set on \<open>ERROR\<close> or the result and
  the new \<open>processed\<close>; \<open>writeData\<close> gets the format, its type and
  \<open>length\<close> and returns the status it set on \<open>ERROR\<close> or the bytes it
  appends. \<open>scan_skip\<close> is \<open>devStreamScanf\<close> for a \<open>%*\<close> format.
\<close>

record denv =
  dp :: dproto
  sid :: nat
  scan_io :: bool
  has_startProtocol :: bool
  has_stopProtocol :: bool
  has_startInput :: bool
  has_stopInput :: bool
  write_part :: "byte list \<Rightarrow> nat option"
  readData :: "(dformat \<Rightarrow> dbf option \<Rightarrow> byte list \<Rightarrow> nat \<Rightarrow> dev_error option + conv \<times> nat) option"
  writeData :: "(dformat \<Rightarrow> dbf option \<Rightarrow> nat \<Rightarrow> dev_error option + byte list) option"
  scan_skip :: "dformat \<Rightarrow> byte list \<Rightarrow> nat \<Rightarrow> dev_error option + nat"

section \<open>Helpers\<close>

definition code_at :: "dcode list \<Rightarrow> nat \<Rightarrow> dcode" where
  "code_at c i = (if i < length c then c ! i else DNul)"

definition cur :: "dstream \<Rightarrow> dcode" where
  "cur s = code_at (code s) (codeIndex s)"

definition active :: "dstream \<Rightarrow> dcode" where
  "active s = code_at (code s) (activeCmd s)"

text \<open>The byte an ordinary or escaped code stands for (the \<open>default\<close> case).\<close>

fun code_byte :: "dcode \<Rightarrow> byte option" where
  "code_byte (DEsc b) = Some b"
| "code_byte (DChr b) = Some b"
| "code_byte _ = None"

fun fmt_of :: "dcode \<Rightarrow> (dformat \<times> dbf option) option" where
  "fmt_of (DFormat f t) = Some (f, t)"
| "fmt_of _ = None"

fun is_event :: "dcode \<Rightarrow> bool" where
  "is_event (DEvent _) = True"
| "is_event _ = False"

text \<open>The type switches of \<open>nextIo\<close> (output) and \<open>callback\<close> (input) for \<open>format->type == 0xFF\<close>.\<close>

definition out_type :: "char \<Rightarrow> dbf option" where
  "out_type c =
     (if c \<in> set ''cdiouxXbrD'' then Some DbfLong
      else if c \<in> set ''feEgG'' then Some DbfDouble
      else if c = CHR ''s'' then Some DbfString
      else if c = CHR ''{'' then Some DbfEnum else None)"

definition in_type :: "char \<Rightarrow> dbf option" where
  "in_type c =
     (if c \<in> set ''diouxXbrD'' then Some DbfLong
      else if c \<in> set ''feEgG'' then Some DbfDouble
      else if c \<in> set ''sc['' then Some DbfString
      else if c = CHR ''{'' then Some DbfEnum else None)"

definition resolve :: "(char \<Rightarrow> dbf option) \<Rightarrow> dformat \<Rightarrow> dbf option \<Rightarrow> dbf option" where
  "resolve ty f t = (case t of None \<Rightarrow> ty (dconv f) | Some x \<Rightarrow> Some x)"

definition upd :: "(dstream \<Rightarrow> dstream) \<Rightarrow> dsys \<Rightarrow> dsys" where
  "upd f y = y\<lparr>st := f (st y)\<rparr>"

definition emit :: "deff \<Rightarrow> dstream \<Rightarrow> dstream" where
  "emit x s = s\<lparr>deffects := deffects s @ [x]\<rparr>"

definition when_iface :: "bool \<Rightarrow> deff \<Rightarrow> dstream \<Rightarrow> dstream" where
  "when_iface b x s = (if b then emit x s else s)"

definition wd_start :: "nat \<Rightarrow> wdh \<Rightarrow> dstream \<Rightarrow> dstream" where
  "wd_start ms h s = s\<lparr>wdog := Some (ms, h), wd_cancelled := False\<rparr>"

definition wd_cancel :: "dstream \<Rightarrow> dstream" where
  "wd_cancel s = s\<lparr>wd_cancelled := True\<rparr>"

definition cb_request :: "dstream \<Rightarrow> dstream" where
  "cb_request s = s\<lparr>cb_requested := True\<rparr>"

definition set_alarm :: "dev_error \<Rightarrow> dstream \<Rightarrow> dstream" where
  "set_alarm a s = s\<lparr>rstatus := Some a\<rparr>"

text \<open>
  After a failed \<open>readData\<close> or \<open>writeData\<close>: the status the function set,
  and \<open>SOFT_ALARM\<close> if it set none.
\<close>

definition fail_status :: "dev_error option \<Rightarrow> dstream \<Rightarrow> dstream" where
  "fail_status err s =
     (let a = (case err of None \<Rightarrow> rstatus s | Some x \<Rightarrow> Some x)
      in s\<lparr>rstatus := (if a = None then Some SoftAlarm else a)\<rparr>)"

definition have_bus :: "denv \<Rightarrow> dsys \<Rightarrow> bool" where
  "have_bus e y = haveBus (lq y) (sid e)"

text \<open>Results: \<open>None\<close> out of fuel or a cyclic queue, \<open>Inl\<close> undefined behaviour.\<close>

definition ok :: "'a \<Rightarrow> (dev_error + 'a) option" where
  "ok x = Some (Inr x)"

definition ebind :: "(dev_error + 'a) option \<Rightarrow> ('a \<Rightarrow> (dev_error + 'b) option) \<Rightarrow> (dev_error + 'b) option" where
  "ebind m f = (case m of None \<Rightarrow> None | Some (Inl err) \<Rightarrow> Some (Inl err) | Some (Inr x) \<Rightarrow> f x)"

definition bus_unlock :: "denv \<Rightarrow> dsys \<Rightarrow> (dev_error + dsys) option" where
  "bus_unlock e y = (case busUnlock (sid e) (lq y) of None \<Rightarrow> None | Some q \<Rightarrow> ok (y\<lparr>lq := q\<rparr>))"

definition bus_lock :: "denv \<Rightarrow> dsys \<Rightarrow> (dev_error + dsys) option" where
  "bus_lock e y = (case busLockRequest (sid e) (lq y) of None \<Rightarrow> None | Some q \<Rightarrow> ok (y\<lparr>lq := q\<rparr>))"

section \<open>The engine\<close>

function (sequential) startIo :: "nat \<Rightarrow> denv \<Rightarrow> dsys \<Rightarrow> (dev_error + bool \<times> dsys) option"
and nextIo :: "nat \<Rightarrow> denv \<Rightarrow> dsys \<Rightarrow> (dev_error + bool \<times> dsys) option"
and out_loop :: "nat \<Rightarrow> denv \<Rightarrow> dsys \<Rightarrow> (dev_error + bool \<times> dsys) option"
and process :: "nat \<Rightarrow> denv \<Rightarrow> dsys \<Rightarrow> (dev_error + dsys) option"
and callback :: "nat \<Rightarrow> denv \<Rightarrow> dsys \<Rightarrow> (dev_error + dsys) option"
and in_loop :: "nat \<Rightarrow> denv \<Rightarrow> dsys \<Rightarrow> (dev_error + dsys) option"
and in_check :: "nat \<Rightarrow> denv \<Rightarrow> dsys \<Rightarrow> (dev_error + dsys) option" where
  "startIo 0 e y = None"
| "startIo (Suc n) e y =
     (let y1 = upd (\<lambda>s. when_iface (has_startProtocol e) StartProtocol
                   (s\<lparr>convert := ConvOK, phase := (if scan_io e then PhaseAsync else PhaseInit), codeIndex := 0\<rparr>)) y
      in ebind (nextIo n e y1) (\<lambda>(r, y2).
           if \<not> r then ebind (process n e y2) (\<lambda>y3. ok (False, y3))
           else ok (True, if active (st y2) \<noteq> DNul \<and> phase (st y2) \<noteq> PhaseAsync
                          then upd (\<lambda>s. s\<lparr>pact := True\<rparr>) y2 else y2)))"
| "nextIo 0 e y = None"
| "nextIo (Suc n) e y =
     (let y1 = upd (\<lambda>s. s\<lparr>rstatus := None, activeCmd := codeIndex s\<rparr>) y;
          s = st y1; p = dp e
      in case cur s of
           DOut \<Rightarrow> out_loop n e (upd (\<lambda>s. s\<lparr>rlength := 0, processed := 0\<rparr>) y1)
         | DIn \<Rightarrow>
             (case mem_write (iobuf s) 0 [0] of
                Inl err \<Rightarrow> Some (Inl err)
              | Inr b \<Rightarrow>
                  (let y2 = upd (\<lambda>s. s\<lparr>rlength := 0, iobuf := b, processed := 0\<rparr>) y1
                   in ebind
                        (if phase s = PhaseAsync then
                           ebind (if have_bus e y2 then bus_unlock e y2 else ok y2) (\<lambda>y3. ok (upd (\<lambda>s. s\<lparr>pact := False\<rparr>) y3))
                         else
                           ok (upd (\<lambda>s. let s1 = (if phase s = PhaseInit then s\<lparr>phase := PhaseReply\<rparr> else s)
                                        in if reply_timeout p \<noteq> 0 then wd_start (reply_timeout p) WdReplyTimeout s1 else s1) y2))
                        (\<lambda>y4. ok (True, upd (\<lambda>s. when_iface (has_startInput e) StartInput (s\<lparr>acceptInput := True\<rparr>)) y4))))
         | DWait ms \<Rightarrow> ok (True, upd (\<lambda>s. wd_start (unat ms) WdCallback (s\<lparr>codeIndex := Suc (codeIndex s)\<rparr>)) y1)
         | DEvent ms \<Rightarrow>
             (let y2 = upd (\<lambda>s. when_iface (scan_io e \<and> has_stopProtocol e) StopProtocol
                          (s\<lparr>codeIndex := Suc (codeIndex s),
                             phase := (if phase s = PhaseAsync then PhaseInit else phase s)\<rparr>)) y1
              in ebind (if have_bus e y2 then bus_unlock e y2 else ok y2) (\<lambda>y3.
                   ok (True, upd (\<lambda>s. when_iface (has_startInput e) StartInput
                                 ((if ms = 0 then s else wd_start (unat ms) WdReplyTimeout s)\<lparr>acceptEvent := True\<rparr>)) y3)))
         | DNul \<Rightarrow> ebind (process n e y1) (\<lambda>y2. ok (True, y2))
         | _ \<Rightarrow> ebind (process n e (upd (set_alarm SoftAlarm) y1)) (\<lambda>y2. ok (False, y2)))"
| "out_loop 0 e y = None"
| "out_loop (Suc n) e y =
     (let y1 = upd (\<lambda>s. s\<lparr>codeIndex := Suc (codeIndex s)\<rparr>) y;
          s = st y1; p = dp e
      in case fmt_of (cur s) of
           Some (f, t) \<Rightarrow>
             (if FSkip \<in> dflags f then ebind (process n e (upd (set_alarm SoftAlarm) y1)) (\<lambda>y2. ok (False, y2))
              else
                (let t' = resolve out_type f t;
                     y2 = upd (\<lambda>s. s\<lparr>code := (code s)[codeIndex s := DFormat f t']\<rparr>) y1
                 in case writeData e of
                      None \<Rightarrow> ebind (process n e (upd (set_alarm SoftAlarm) y2)) (\<lambda>y3. ok (False, y3))
                    | Some wd \<Rightarrow>
                        ebind (if scan_io e \<and> \<not> pact (st y2) then process n e (upd (\<lambda>s. s\<lparr>phase := PhaseReply\<rparr>) y2) else ok y2)
                          (\<lambda>y3. case wd f t' (rlength (st y3)) of
                                  Inl err \<Rightarrow> ebind (process n e (upd (fail_status err) y3)) (\<lambda>y4. ok (False, y4))
                                | Inr bs \<Rightarrow>
                                    (case mem_write (iobuf (st y3)) (rlength (st y3)) bs of
                                       Inl err \<Rightarrow> Some (Inl err)
                                     | Inr m \<Rightarrow> out_loop n e (upd (\<lambda>s. s\<lparr>iobuf := m, rlength := rlength s + length bs\<rparr>) y3)))))
         | None \<Rightarrow>
           if cur s = DSkip then ebind (process n e (upd (set_alarm SoftAlarm) y1)) (\<lambda>y2. ok (False, y2))
           else
             (case code_byte (cur s) of
                Some b \<Rightarrow>
                  (case mem_write (iobuf s) (rlength s) [b] of
                     Inl err \<Rightarrow> Some (Inl err)
                   | Inr m \<Rightarrow>
                       (let y2 = upd (\<lambda>s. s\<lparr>iobuf := m, rlength := Suc (rlength s)\<rparr>) y1
                        in if bufferSize p \<le> rlength s then ok (False, upd (set_alarm HwLimitAlarm) y2)
                           else out_loop n e y2))
              | None \<Rightarrow>
                  (if bufferSize p \<le> rlength s + length (out_terminator p) then
                     ebind (process n e (upd (set_alarm HwLimitAlarm) y1)) (\<lambda>y2. ok (False, y2))
                   else
                     (case mem_write (iobuf s) (rlength s) (out_terminator p) of
                        Inl err \<Rightarrow> Some (Inl err)
                      | Inr m \<Rightarrow>
                          (let y2 = upd (\<lambda>s. s\<lparr>iobuf := m, rlength := rlength s + length (out_terminator p)\<rparr>) y1
                           in if have_bus e y2 then ebind (callback n e y2) (\<lambda>y3. ok (True, y3))
                              else ebind (bus_lock e (if lock_timeout p \<noteq> 0 then upd (wd_start (lock_timeout p) WdLockTimeout) y2 else y2))
                                     (\<lambda>y3. ok (True, y3)))))))"
| "process 0 e y = None"
| "process (Suc n) e y =
     (if phase (st y) = PhaseAsync \<and> rstatus (st y) = Some CalcAlarm then
        ebind (nextIo n e (upd (\<lambda>s. s\<lparr>codeIndex := activeCmd s\<rparr>) y)) (\<lambda>(r, y2). ok y2)
      else
        (let y1 = upd (when_iface (has_stopProtocol e) StopProtocol) y
         in ebind (if have_bus e y1 then bus_unlock e y1 else ok y1) (\<lambda>y2.
              (let y3 = (if pact (st y2) \<or> scan_io e
                         then upd (\<lambda>s. (emit (RecordProcess (rstatus s)) s)\<lparr>pact := False\<rparr>) y2 else y2);
                   y4 = upd (\<lambda>s. s\<lparr>rstatus := None\<rparr>) y3
               in if scan_io e then ebind (startIo n e y4) (\<lambda>(r, y5). ok y5) else ok y4))))"
| "callback 0 e y = None"
| "callback (Suc n) e y =
     (let s0 = st y;
          y1 = upd (\<lambda>s. wd_cancel (when_iface ((active s = DIn \<or> is_event (active s)) \<and> has_stopInput e) StopInput s)) y;
          s = st y1
      in if rstatus s \<noteq> None \<and> (rstatus s \<noteq> Some ReadAlarm \<or> in_terminator (dp e) \<noteq> []) then process n e y1
         else case active s of
           DIn \<Rightarrow> in_loop n e y1
         | DOut \<Rightarrow>
             (if rlength s \<le> processed s then ebind (nextIo n e (upd wd_cancel y1)) (\<lambda>(r, y2). ok y2)
              else if \<not> have_bus e y1 then process n e (upd (set_alarm WriteAlarm) y1)
              else
                (let out = drop (processed s) (take (rlength s) (iobuf s))
                 in case write_part e out of
                      None \<Rightarrow> process n e (upd (set_alarm WriteAlarm) y1)
                    | Some sz \<Rightarrow> ok (upd (\<lambda>s. (emit (WritePart out) s)\<lparr>processed := processed s + sz\<rparr>) y1)))
         | DWait ms \<Rightarrow> ebind (nextIo n e y1) (\<lambda>(r, y2). ok y2)
         | DEvent ms \<Rightarrow> ebind (nextIo n e y1) (\<lambda>(r, y2). ok y2)
         | _ \<Rightarrow> ok y1)"
| "in_loop 0 e y = None"
| "in_loop (Suc n) e y =
     (let y1 = upd (\<lambda>s. s\<lparr>codeIndex := Suc (codeIndex s)\<rparr>) y;
          s = st y1
      in case fmt_of (cur s) of
           Some (f, t) \<Rightarrow>
             (if dprec f \<noteq> -1 then process n e (upd (set_alarm SoftAlarm) y1)
              else if FSkip \<in> dflags f then
                (case scan_skip e f (iobuf s) (processed s) of
                   Inl err \<Rightarrow> process n e (upd (\<lambda>s. s\<lparr>rstatus := (case err of None \<Rightarrow> rstatus s | Some a \<Rightarrow> Some a)\<rparr>) y1)
                 | Inr p' \<Rightarrow> in_check n e (upd (\<lambda>s. s\<lparr>processed := p'\<rparr>) y1))
              else
                (let t' = resolve in_type f t;
                     y2 = upd (\<lambda>s. s\<lparr>code := (code s)[codeIndex s := DFormat f t']\<rparr>) y1
                 in if phase s = PhaseGotValue then process n e (upd (set_alarm SoftAlarm) y2)
                    else case readData e of
                      None \<Rightarrow> process n e (upd (set_alarm SoftAlarm) y2)
                    | Some rd \<Rightarrow>
                        (case rd f t' (iobuf s) (processed s) of
                           Inl err \<Rightarrow> process n e (upd (\<lambda>s. fail_status err (s\<lparr>convert := ConvError\<rparr>)) y2)
                         | Inr (cv, p') \<Rightarrow>
                             in_check n e (upd (\<lambda>s. s\<lparr>convert := cv, processed := p', phase := PhaseGotValue,
                                                      udf := (if cv = DoNotConvert then False else udf s)\<rparr>) y2))))
         | None \<Rightarrow>
           if cur s = DSkip then in_check n e (upd (\<lambda>s. s\<lparr>processed := Suc (processed s)\<rparr>) y1)
           else
             (case code_byte (cur s) of
                Some b \<Rightarrow>
                  (if rlength s < processed s then in_check n e y1
                   else if length (iobuf s) \<le> processed s then Some (Inl Undefined)
                   else
                     (let y2 = upd (\<lambda>s. s\<lparr>processed := Suc (processed s)\<rparr>) y1
                      in if iobuf s ! processed s \<noteq> b \<and> processed s < rlength s
                         then process n e (upd (set_alarm CalcAlarm) y2)
                         else in_check n e y2))
              | None \<Rightarrow>
                  ebind (if processed s < rlength s \<and> \<not> ignoreExtra (dp e)
                         then process n e (upd (set_alarm CalcAlarm) y1) else ok y1)
                    (\<lambda>y2. ebind (nextIo n e (upd (\<lambda>s. s\<lparr>phase := (if phase s = PhaseAsync then PhaseReply else phase s),
                                                          rstatus := None\<rparr>) y2))
                           (\<lambda>(r, y3). ok y3))))"
| "in_check 0 e y = None"
| "in_check (Suc n) e y =
     (if rlength (st y) < processed (st y) then process n e (upd (set_alarm CalcAlarm) y)
      else in_loop n e y)"
  by pat_completeness auto

termination
  by (relation "measure (case_sum (case_sum fst (case_sum fst fst)) (case_sum (case_sum fst fst) (case_sum fst fst)))") simp_all

section \<open>Entry points: record processing\<close>

text \<open>The value \<open>readData\<close> returned, as \<open>devStreamRead\<close> passes it on.\<close>

fun conv_code :: "conv \<Rightarrow> int" where
  "conv_code ConvOK = 0"
| "conv_code ConvError = -1"
| "conv_code DoNotConvert = 2"

text \<open>
  \<open>devStreamRead\<close> and \<open>devStreamWrite\<close> for an initialised record
  (\<open>dpvt\<close> not \<open>NULL\<close>); the result is the \<open>long\<close> they return, \<open>-1\<close> being
  \<open>ERROR\<close>.
\<close>

definition devStreamRead :: "nat \<Rightarrow> denv \<Rightarrow> dsys \<Rightarrow> (dev_error + int \<times> dsys) option" where
  "devStreamRead n e y =
     (if rstatus (st y) \<noteq> None then ok (-1, y)
      else if pact (st y) \<or> scan_io e then ok (conv_code (convert (st y)), y)
      else ebind (startIo n e y) (\<lambda>(r, y1). ok (if r then 0 else -1, y1)))"

definition devStreamWrite :: "nat \<Rightarrow> denv \<Rightarrow> dsys \<Rightarrow> (dev_error + int \<times> dsys) option" where
  "devStreamWrite n e y =
     (if rstatus (st y) \<noteq> None then ok (-1, y)
      else if pact (st y) then ok (0, y)
      else if \<not> scan_io e then ebind (startIo n e y) (\<lambda>(r, y1). ok (if r then 0 else -1, y1))
      else ok (0, y))"

section \<open>Handlers called by the bus driver and the watchdog\<close>

definition devStreamWriteFinished :: "dsys \<Rightarrow> dsys" where
  "devStreamWriteFinished y = (if active (st y) \<noteq> DOut then y else upd (\<lambda>s. cb_request (wd_cancel s)) y)"

definition devStreamEvent :: "denv \<Rightarrow> dsys \<Rightarrow> dsys" where
  "devStreamEvent e y =
     (if \<not> is_event (active (st y)) then y
      else upd (\<lambda>s. cb_request (when_iface (scan_io e \<and> has_startProtocol e) StartProtocol
                                   ((wd_cancel s)\<lparr>acceptEvent := False\<rparr>))) y)"

definition devStreamBusError :: "dsys \<Rightarrow> dsys" where
  "devStreamBusError y =
     upd (\<lambda>s. cb_request ((wd_cancel s)\<lparr>rstatus := Some CommAlarm, acceptInput := False, acceptEvent := False\<rparr>)) y"

definition devStreamWriteTimeout :: "denv \<Rightarrow> dsys \<Rightarrow> dsys" where
  "devStreamWriteTimeout e y =
     (if active (st y) \<noteq> DOut then y
      else if \<not> have_bus e y then y
      else upd (\<lambda>s. cb_request (set_alarm WriteAlarm s)) y)"

definition devStreamReadTimeout :: "dsys \<Rightarrow> dsys" where
  "devStreamReadTimeout y =
     (if active (st y) \<noteq> DIn then y
      else upd (\<lambda>s. cb_request ((set_alarm ReadAlarm s)\<lparr>acceptInput := False\<rparr>)) y)"

text \<open>The watchdog function of \<open>IN\<close> and of \<open>EVENT\<close> with a timeout.\<close>

definition replyTimeout_wd :: "dsys \<Rightarrow> dsys" where
  "replyTimeout_wd y =
     (if active (st y) \<noteq> DIn then y
      else upd (\<lambda>s. cb_request ((set_alarm TimeoutAlarm s)\<lparr>acceptInput := False, acceptEvent := False\<rparr>)) y)"

text \<open>\<open>lockTimeout\<close>: the queue part (\<open>lockCancelled\<close>, \<open>callbackRequest\<close>) is \<open>lockTimeout_cb\<close>.\<close>

definition lockTimeout_wd :: "denv \<Rightarrow> dsys \<Rightarrow> dsys" where
  "lockTimeout_wd e y = y\<lparr>lq := lockTimeout_cb (sid e) (lq y), st := set_alarm TimeoutAlarm (st y)\<rparr>"

definition receive :: "denv \<Rightarrow> byte list \<Rightarrow> bool \<Rightarrow> dsys \<Rightarrow> dev_error + dsys" where
  "receive e data endflag y =
     (case devStreamReceive (bufferSize (dp e)) (in_terminator (dp e)) (active (st y) = DIn) data endflag (st y) of
        Inl err \<Rightarrow> Inl err
      | Inr s \<Rightarrow> Inr (y\<lparr>st := s\<rparr>))"

section \<open>Runs: events in arrival order\<close>

text \<open>
  The events that drive a stream: the record is processed (read or write
  record), the bus driver delivers input or calls a handler, the armed
  watchdog expires, or the callback task runs a requested \<open>callback\<close>
  (requested by the engine, or by the lock queue handing over the bus).
\<close>

datatype dev_event = EvRead | EvWrite | EvReceive "byte list" bool | EvWriteFinished | EvEvent
  | EvBusError | EvWriteTimeout | EvReadTimeout | EvTimer | EvCallback

definition cb_pending :: "denv \<Rightarrow> dsys \<Rightarrow> bool" where
  "cb_pending e y \<longleftrightarrow> cb_requested (st y) \<or> sid e \<in> set (cbreq (lq y))"

definition armed :: "dstream \<Rightarrow> (nat \<times> wdh) option" where
  "armed s = (if wd_cancelled s then None else wdog s)"

definition fire :: "denv \<Rightarrow> wdh \<Rightarrow> dsys \<Rightarrow> dsys" where
  "fire e h y = (case h of WdReplyTimeout \<Rightarrow> replyTimeout_wd y | WdLockTimeout \<Rightarrow> lockTimeout_wd e y | WdCallback \<Rightarrow> upd cb_request y)"

fun dev_step :: "nat \<Rightarrow> denv \<Rightarrow> dsys \<Rightarrow> dev_event \<Rightarrow> (dev_error + dsys) option" where
  "dev_step n e y EvRead = ebind (devStreamRead n e y) (\<lambda>(r, y1). ok y1)"
| "dev_step n e y EvWrite = ebind (devStreamWrite n e y) (\<lambda>(r, y1). ok y1)"
| "dev_step n e y (EvReceive data endflag) = Some (receive e data endflag y)"
| "dev_step n e y EvWriteFinished = ok (devStreamWriteFinished y)"
| "dev_step n e y EvEvent = ok (devStreamEvent e y)"
| "dev_step n e y EvBusError = ok (devStreamBusError y)"
| "dev_step n e y EvWriteTimeout = ok (devStreamWriteTimeout e y)"
| "dev_step n e y EvReadTimeout = ok (devStreamReadTimeout y)"
| "dev_step n e y EvTimer =
     (case armed (st y) of None \<Rightarrow> ok y | Some (ms, h) \<Rightarrow> ok (fire e h (upd wd_cancel y)))"
| "dev_step n e y EvCallback =
     (if cb_pending e y
      then callback n e (y\<lparr>lq := (lq y)\<lparr>cbreq := removeAll (sid e) (cbreq (lq y))\<rparr>, st := (st y)\<lparr>cb_requested := False\<rparr>\<rparr>)
      else ok y)"

fun dev_run :: "nat \<Rightarrow> denv \<Rightarrow> dsys \<Rightarrow> dev_event list \<Rightarrow> (dev_error + dsys) option" where
  "dev_run n e y [] = ok y"
| "dev_run n e y (ev # evs) = ebind (dev_step n e y ev) (\<lambda>y1. dev_run n e y1 evs)"

section \<open>Lemmas on results and updates\<close>

lemma ebind_ok [simp]: "ebind (ok x) f = f x"
  by (simp add: ebind_def ok_def)

lemma ebind_simps [simp]: "ebind None f = None" "ebind (Some (Inl err)) f = Some (Inl err)"
  "ebind (Some (Inr x)) f = f x"
  by (simp_all add: ebind_def)

lemma ebind_eq_Inr: "ebind m f = Some (Inr z) \<longleftrightarrow> (\<exists>x. m = Some (Inr x) \<and> f x = Some (Inr z))"
  by (auto simp: ebind_def split: option.splits sum.splits)

lemma upd_sel [simp]: "lq (upd f y) = lq y" "st (upd f y) = f (st y)"
  by (simp_all add: upd_def)

lemma when_iface_eq [simp]:
  "when_iface b x s = s\<lparr>deffects := (if b then deffects s @ [x] else deffects s)\<rparr>"
  by (simp add: when_iface_def emit_def)

lemma mem_write_single: "a < length m \<Longrightarrow> mem_write m a [b] = Inr (m[a := b])"
  by (simp add: mem_write_def upd_conv_take_nth_drop)

lemma code_byte_Some: "code_byte c = Some b \<Longrightarrow> fmt_of c = None \<and> c \<noteq> DSkip"
  by (cases c) auto

text \<open>An ordinary byte of an \<open>OUT\<close> command is stored at \<open>ioBuffer[length++]\<close>.\<close>

lemma out_loop_byte:
  assumes "code_byte (code_at (code (st y)) (Suc (codeIndex (st y)))) = Some b"
      and "rlength (st y) < length (iobuf (st y))" "rlength (st y) < bufferSize (dp e)"
  shows "out_loop (Suc n) e y = out_loop n e (upd (\<lambda>s. s\<lparr>codeIndex := Suc (codeIndex s),
            iobuf := (iobuf s)[rlength s := b], rlength := Suc (rlength s)\<rparr>) y)"
  using assms code_byte_Some [OF assms(1)]
  by (simp add: cur_def Let_def mem_write_single upd_def)

lemma out_loop_byte_overflow:
  assumes "code_byte (code_at (code (st y)) (Suc (codeIndex (st y)))) = Some b"
      and "length (iobuf (st y)) \<le> rlength (st y)"
  shows "out_loop (Suc n) e y = Some (Inl Undefined)"
  using assms code_byte_Some [OF assms(1)]
  by (simp add: cur_def Let_def mem_write_def upd_def)

lemma out_literal_overflow:
  assumes "length (iobuf (st y)) = bufferSize (dp e)" "rlength (st y) \<le> bufferSize (dp e)"
      and "\<forall>j<length bs. code_at (code (st y)) (Suc (codeIndex (st y) + j)) = DChr (bs ! j)"
      and "bufferSize (dp e) < rlength (st y) + length bs" "length bs \<le> n"
  shows "out_loop n e y = Some (Inl Undefined)"
  using assms
proof (induction bs arbitrary: y n)
  case Nil then show ?case by simp
next
  case (Cons b bs)
  obtain m where n: "n = Suc m" and m: "length bs \<le> m" using Cons.prems(5) by (cases n) auto
  have c: "code_byte (code_at (code (st y)) (Suc (codeIndex (st y)))) = Some b"
    using Cons.prems(3) by (metis add_0_right code_byte.simps(2) length_Cons nth_Cons_0 zero_less_Suc)
  show ?case
  proof (cases "rlength (st y) < bufferSize (dp e)")
    case False
    then show ?thesis unfolding n using Cons.prems(1) by (intro out_loop_byte_overflow [OF c]) simp
  next
    case True
    let ?y = "upd (\<lambda>s. s\<lparr>codeIndex := Suc (codeIndex s), iobuf := (iobuf s)[rlength s := b], rlength := Suc (rlength s)\<rparr>) y"
    have "out_loop m e ?y = Some (Inl Undefined)"
    proof (rule Cons.IH)
      show "\<forall>j<length bs. code_at (code (st ?y)) (Suc (codeIndex (st ?y) + j)) = DChr (bs ! j)"
        using Cons.prems(3) by (auto dest: spec [of _ "Suc _"])
    qed (use Cons.prems True m in auto)
    then show ?thesis unfolding n using True Cons.prems(1) by (subst out_loop_byte [OF c]) simp_all
  qed
qed

text \<open>
  C25: An \<open>OUT\<close> command with more ordinary bytes than the
  I/O buffer holds writes \<open>ioBuffer[bufferSize]\<close>, one byte past the
  \<open>malloc(bufferSize)\<close> allocation, before its overflow check
  (\<open>length++ >= bufferSize\<close>) can fire: \<open>nextIo\<close> ends in undefined
  behaviour, and the \<open>HW_LIMIT_ALARM\<close> branch is never reached.
\<close>

theorem nextIo_out_overflow:
  assumes "length (iobuf (st y)) = bufferSize (dp e)" "cur (st y) = DOut"
      and "\<forall>j<length bs. code_at (code (st y)) (Suc (codeIndex (st y) + j)) = DChr (bs ! j)"
      and "bufferSize (dp e) < length bs" "length bs \<le> n"
  shows "nextIo (Suc n) e y = Some (Inl Undefined)"
proof -
  let ?y = "upd (\<lambda>s. s\<lparr>rlength := 0, processed := 0\<rparr>) (upd (\<lambda>s. s\<lparr>rstatus := None, activeCmd := codeIndex s\<rparr>) y)"
  have "out_loop n e ?y = Some (Inl Undefined)"
    by (rule out_literal_overflow [of _ _ bs]) (use assms in simp_all)
  then show ?thesis using assms(2) by (simp add: Let_def cur_def)
qed


section \<open>The lock queue invariant across the engine\<close>

lemma bus_unlock_inv: "bus_unlock e y = Some (Inr y') \<Longrightarrow> bus_inv (lq y) \<Longrightarrow> bus_inv (lq y')"
  by (auto simp: bus_unlock_def ok_def split: option.splits intro: busUnlock_bus_inv)

lemma bus_lock_inv: "bus_lock e y = Some (Inr y') \<Longrightarrow> bus_inv (lq y) \<Longrightarrow> bus_inv (lq y')"
  by (auto simp: bus_lock_def ok_def split: option.splits intro: busLockRequest_bus_inv)

lemma bus_cond_unlock_inv:
  "(if c then bus_unlock e y else ok y) = Some (Inr y') \<Longrightarrow> bus_inv (lq y) \<Longrightarrow> bus_inv (lq y')"
  by (auto simp: ok_def split: if_splits intro: bus_unlock_inv)

lemma ebindE [elim!]:
  "ebind m f = Some (Inr z) \<Longrightarrow> (\<And>x. m = Some (Inr x) \<Longrightarrow> f x = Some (Inr z) \<Longrightarrow> P) \<Longrightarrow> P"
  by (auto simp: ebind_eq_Inr)

lemma ok_eq [simp]: "ok x = Some (Inr z) \<longleftrightarrow> x = z"
  by (simp add: ok_def)

lemma nextIo_inv_step:
  assumes pR: "\<And>e y y'. process n e y = Some (Inr y') \<Longrightarrow> bus_inv (lq y) \<Longrightarrow> bus_inv (lq y')"
      and oL: "\<And>e y r y'. out_loop n e y = Some (Inr (r, y')) \<Longrightarrow> bus_inv (lq y) \<Longrightarrow> bus_inv (lq y')"
      and r: "nextIo (Suc n) e y = Some (Inr (r, y'))" and inv: "bus_inv (lq y)"
  shows "bus_inv (lq y')"
proof (cases "cur (st y)")
  case DIn
  then show ?thesis using r inv
    by (auto simp: Let_def cur_def split: sum.splits if_splits dest!: bus_unlock_inv)
next
  case (DEvent ms)
  then show ?thesis using r inv
    by (auto simp: Let_def cur_def split: if_splits dest!: bus_unlock_inv)
qed (use r inv pR oL in \<open>auto simp: Let_def cur_def\<close>)


lemma out_loop_inv_step:
  assumes pR: "\<And>e y y'. process n e y = Some (Inr y') \<Longrightarrow> bus_inv (lq y) \<Longrightarrow> bus_inv (lq y')"
      and cB: "\<And>e y y'. callback n e y = Some (Inr y') \<Longrightarrow> bus_inv (lq y) \<Longrightarrow> bus_inv (lq y')"
      and oL: "\<And>e y r y'. out_loop n e y = Some (Inr (r, y')) \<Longrightarrow> bus_inv (lq y) \<Longrightarrow> bus_inv (lq y')"
      and r: "out_loop (Suc n) e y = Some (Inr (r, y'))" and inv: "bus_inv (lq y)"
  shows "bus_inv (lq y')"
proof (cases "fmt_of (code_at (code (st y)) (Suc (codeIndex (st y))))")
  case None
  show ?thesis
  proof (cases "code_byte (code_at (code (st y)) (Suc (codeIndex (st y))))")
    case nb: None
    then show ?thesis using None r inv pR cB
      by (auto simp: Let_def cur_def split: sum.splits if_splits dest!: bus_lock_inv)
  next
    case (Some b)
    then show ?thesis using None r inv pR oL code_byte_Some [OF Some]
      by (auto simp: Let_def cur_def split: sum.splits if_splits)
  qed
next
  case (Some ft)
  then show ?thesis using r inv pR oL
    by (auto simp: Let_def cur_def split: prod.splits option.splits sum.splits if_splits)
qed

lemma process_inv_step:
  assumes nI: "\<And>e y r y'. nextIo n e y = Some (Inr (r, y')) \<Longrightarrow> bus_inv (lq y) \<Longrightarrow> bus_inv (lq y')"
      and sI: "\<And>e y r y'. startIo n e y = Some (Inr (r, y')) \<Longrightarrow> bus_inv (lq y) \<Longrightarrow> bus_inv (lq y')"
      and r: "process (Suc n) e y = Some (Inr y')" and inv: "bus_inv (lq y)"
  shows "bus_inv (lq y')"
  using r inv nI sI by (auto simp: Let_def split: if_splits prod.splits dest!: bus_unlock_inv)

lemma startIo_inv_step:
  assumes nI: "\<And>e y r y'. nextIo n e y = Some (Inr (r, y')) \<Longrightarrow> bus_inv (lq y) \<Longrightarrow> bus_inv (lq y')"
      and pR: "\<And>e y y'. process n e y = Some (Inr y') \<Longrightarrow> bus_inv (lq y) \<Longrightarrow> bus_inv (lq y')"
      and r: "startIo (Suc n) e y = Some (Inr (r, y'))" and inv: "bus_inv (lq y)"
  shows "bus_inv (lq y')"
  using r inv nI pR by (auto simp: Let_def split: if_splits prod.splits)

lemma callback_inv_step:
  assumes nI: "\<And>e y r y'. nextIo n e y = Some (Inr (r, y')) \<Longrightarrow> bus_inv (lq y) \<Longrightarrow> bus_inv (lq y')"
      and pR: "\<And>e y y'. process n e y = Some (Inr y') \<Longrightarrow> bus_inv (lq y) \<Longrightarrow> bus_inv (lq y')"
      and iL: "\<And>e y y'. in_loop n e y = Some (Inr y') \<Longrightarrow> bus_inv (lq y) \<Longrightarrow> bus_inv (lq y')"
      and r: "callback (Suc n) e y = Some (Inr y')" and inv: "bus_inv (lq y)"
  shows "bus_inv (lq y')"
  using r inv nI pR iL by (auto simp: Let_def split: dcode.splits option.splits if_splits prod.splits)

lemma in_loop_inv_step:
  assumes nI: "\<And>e y r y'. nextIo n e y = Some (Inr (r, y')) \<Longrightarrow> bus_inv (lq y) \<Longrightarrow> bus_inv (lq y')"
      and pR: "\<And>e y y'. process n e y = Some (Inr y') \<Longrightarrow> bus_inv (lq y) \<Longrightarrow> bus_inv (lq y')"
      and iC: "\<And>e y y'. in_check n e y = Some (Inr y') \<Longrightarrow> bus_inv (lq y) \<Longrightarrow> bus_inv (lq y')"
      and r: "in_loop (Suc n) e y = Some (Inr y')" and inv: "bus_inv (lq y)"
  shows "bus_inv (lq y')"
proof (cases "fmt_of (code_at (code (st y)) (Suc (codeIndex (st y))))")
  case None
  then show ?thesis using r inv nI pR iC
    by (auto simp: Let_def cur_def split: option.splits if_splits prod.splits)
next
  case (Some ft)
  then show ?thesis using r inv pR iC
    by (auto simp: Let_def cur_def split: prod.splits option.splits sum.splits if_splits)
qed


lemma engine_bus_inv:
  "(\<forall>e y r y'. startIo n e y = Some (Inr (r, y')) \<longrightarrow> bus_inv (lq y) \<longrightarrow> bus_inv (lq y')) \<and>
   (\<forall>e y r y'. nextIo n e y = Some (Inr (r, y')) \<longrightarrow> bus_inv (lq y) \<longrightarrow> bus_inv (lq y')) \<and>
   (\<forall>e y r y'. out_loop n e y = Some (Inr (r, y')) \<longrightarrow> bus_inv (lq y) \<longrightarrow> bus_inv (lq y')) \<and>
   (\<forall>e y y'. process n e y = Some (Inr y') \<longrightarrow> bus_inv (lq y) \<longrightarrow> bus_inv (lq y')) \<and>
   (\<forall>e y y'. callback n e y = Some (Inr y') \<longrightarrow> bus_inv (lq y) \<longrightarrow> bus_inv (lq y')) \<and>
   (\<forall>e y y'. in_loop n e y = Some (Inr y') \<longrightarrow> bus_inv (lq y) \<longrightarrow> bus_inv (lq y')) \<and>
   (\<forall>e y y'. in_check n e y = Some (Inr y') \<longrightarrow> bus_inv (lq y) \<longrightarrow> bus_inv (lq y'))"
proof (induction n)
  case 0 then show ?case by simp
next
  case (Suc n)
  note IH = Suc.IH
  note sI = IH [THEN conjunct1, rule_format]
  note nI = IH [THEN conjunct2, THEN conjunct1, rule_format]
  note oL = IH [THEN conjunct2, THEN conjunct2, THEN conjunct1, rule_format]
  note pR = IH [THEN conjunct2, THEN conjunct2, THEN conjunct2, THEN conjunct1, rule_format]
  note cB = IH [THEN conjunct2, THEN conjunct2, THEN conjunct2, THEN conjunct2, THEN conjunct1, rule_format]
  note iL = IH [THEN conjunct2, THEN conjunct2, THEN conjunct2, THEN conjunct2, THEN conjunct2, THEN conjunct1, rule_format]
  note iC = IH [THEN conjunct2, THEN conjunct2, THEN conjunct2, THEN conjunct2, THEN conjunct2, THEN conjunct2, rule_format]
  show ?case
  proof (intro conjI allI impI)
    fix e y r y' assume "startIo (Suc n) e y = Some (Inr (r, y'))" "bus_inv (lq y)"
    then show "bus_inv (lq y')" by (rule startIo_inv_step [rotated 2]) (fact nI, fact pR)
  next
    fix e y r y' assume "nextIo (Suc n) e y = Some (Inr (r, y'))" "bus_inv (lq y)"
    then show "bus_inv (lq y')" by (rule nextIo_inv_step [rotated 2]) (fact pR, fact oL)
  next
    fix e y r y' assume "out_loop (Suc n) e y = Some (Inr (r, y'))" "bus_inv (lq y)"
    then show "bus_inv (lq y')" by (rule out_loop_inv_step [rotated 3]) (fact pR, fact cB, fact oL)
  next
    fix e y y' assume "process (Suc n) e y = Some (Inr y')" "bus_inv (lq y)"
    then show "bus_inv (lq y')" by (rule process_inv_step [rotated 2]) (fact nI, fact sI)
  next
    fix e y y' assume "callback (Suc n) e y = Some (Inr y')" "bus_inv (lq y)"
    then show "bus_inv (lq y')" by (rule callback_inv_step [rotated 3]) (fact nI, fact pR, fact iL)
  next
    fix e y y' assume "in_loop (Suc n) e y = Some (Inr y')" "bus_inv (lq y)"
    then show "bus_inv (lq y')" by (rule in_loop_inv_step [rotated 3]) (fact nI, fact pR, fact iC)
  next
    fix e y y' assume "in_check (Suc n) e y = Some (Inr y')" "bus_inv (lq y)"
    then show "bus_inv (lq y')" using pR iL by (auto split: if_splits)
  qed
qed

lemma dev_step_bus_inv:
  assumes r: "dev_step n e y ev = Some (Inr y')" and inv: "bus_inv (lq y)"
  shows "bus_inv (lq y')"
proof -
  note E = engine_bus_inv [of n]
  show ?thesis
  proof (cases ev)
    case EvRead then show ?thesis using r inv E
      by (auto simp: devStreamRead_def split: if_splits prod.splits)
  next
    case EvWrite then show ?thesis using r inv E
      by (auto simp: devStreamWrite_def split: if_splits prod.splits)
  next
    case (EvReceive data endflag) then show ?thesis using r inv
      by (auto simp: receive_def split: sum.splits)
  next
    case EvTimer then show ?thesis using r inv
      by (auto simp: fire_def replyTimeout_wd_def lockTimeout_wd_def lockTimeout_bus_inv split: option.splits wdh.splits)
  next
    case EvCallback then show ?thesis using r inv E
      by (auto simp: bus_inv_def split: if_splits)
  qed (use r inv in \<open>auto simp: devStreamWriteFinished_def devStreamEvent_def devStreamBusError_def
          devStreamWriteTimeout_def devStreamReadTimeout_def\<close>)
qed

lemma dev_run_bus_inv: "bus_inv (lq y) \<Longrightarrow> dev_run n e y evs = Some (Inr y') \<Longrightarrow> bus_inv (lq y')"
proof (induction evs arbitrary: y)
  case Nil then show ?case by simp
next
  case (Cons ev evs) then show ?case by (auto intro: dev_step_bus_inv)
qed

text \<open>
  C26: An \<open>EVENT\<close> command with a timeout starts the watchdog
  with \<open>replyTimeout\<close>, but \<open>replyTimeout\<close> returns at once unless the
  active command is \<open>IN\<close>: when the timeout expires only the watchdog is
  disarmed; no alarm is set and no callback requested, so without the event
  the protocol waits forever.
\<close>

theorem event_timeout_ignored:
  assumes "cur (st y) = DEvent ms" "ms \<noteq> 0" "\<not> have_bus e y"
  shows "\<exists>y'. nextIo (Suc n) e y = ok (True, y') \<and> armed (st y') = Some (unat ms, WdReplyTimeout)
           \<and> is_event (active (st y')) \<and> dev_step m e y' EvTimer = ok (upd wd_cancel y')"
proof -
  have "\<exists>y'. nextIo (Suc n) e y = ok (True, y')"
    using assms by (simp add: Let_def cur_def have_bus_def ok_def)
  then obtain y' where r: "nextIo (Suc n) e y = ok (True, y')" ..
  have "armed (st y') = Some (unat ms, WdReplyTimeout) \<and> is_event (active (st y'))
        \<and> dev_step m e y' EvTimer = ok (upd wd_cancel y')"
    using r assms by (auto simp: Let_def cur_def active_def have_bus_def wd_start_def
                                armed_def fire_def replyTimeout_wd_def ok_def wd_cancel_def)
  with r show ?thesis by blast
qed

text \<open>
  C28: when more input than the \<open>IN\<close> command parsed has
  arrived, extra input is not ignored and the next command is
  \<open>WAIT\<close>, the input handler records a \<open>CALC\<close> alarm
  ("extra input") for the record and asks for processing, yet it does not
  stop the protocol: the record is marked inactive and the engine goes on
  with the \<open>WAIT\<close>, arming the watchdog with its time.
\<close>

theorem in_extra_input_continues:
  assumes "code_at (code (st y)) (Suc (codeIndex (st y))) = DWait ms"
      and "processed (st y) < rlength (st y)" "\<not> ignoreExtra (dp e)" "phase (st y) \<noteq> PhaseAsync"
      and "pact (st y)" "\<not> scan_io e" "\<not> have_bus e y"
  shows "\<exists>y'. in_loop (Suc (Suc n)) e y = ok y' \<and> RecordProcess (Some CalcAlarm) \<in> set (deffects (st y'))
           \<and> \<not> pact (st y') \<and> armed (st y') = Some (unat ms, WdCallback)"
proof -
  have "\<exists>y'. in_loop (Suc (Suc n)) e y = ok y'"
    using assms by (simp add: Let_def cur_def have_bus_def set_alarm_def ok_def emit_def)
  then obtain y' where r: "in_loop (Suc (Suc n)) e y = ok y'" ..
  have "RecordProcess (Some CalcAlarm) \<in> set (deffects (st y')) \<and> \<not> pact (st y') \<and> armed (st y') = Some (unat ms, WdCallback)"
    using r assms by (auto simp: Let_def cur_def have_bus_def set_alarm_def ok_def wd_start_def armed_def emit_def)
  with r show ?thesis by blast
qed

text \<open>
  The bytes of an \<open>OUT\<close> command: each ordinary byte of the
  format is copied into the I/O buffer after those already there.
\<close>

lemma out_loop_literals:
  assumes "\<forall>j<length bs. code_at (code (st y)) (Suc (codeIndex (st y) + j)) = DChr (bs ! j)"
      and "rlength (st y) + length bs \<le> length (iobuf (st y))" "rlength (st y) + length bs \<le> bufferSize (dp e)"
  shows "out_loop (length bs + m) e y = out_loop m e (upd (\<lambda>s. s\<lparr>codeIndex := codeIndex s + length bs,
            iobuf := take (rlength s) (iobuf s) @ bs @ drop (rlength s + length bs) (iobuf s),
            rlength := rlength s + length bs\<rparr>) y)"
  using assms
proof (induction bs arbitrary: y)
  case Nil then show ?case by (simp add: upd_def)
next
  case (Cons b bs)
  have c: "code_byte (code_at (code (st y)) (Suc (codeIndex (st y)))) = Some b"
    using Cons.prems(1) by (metis add_0_right code_byte.simps(2) length_Cons nth_Cons_0 zero_less_Suc)
  let ?y = "upd (\<lambda>s. s\<lparr>codeIndex := Suc (codeIndex s), iobuf := (iobuf s)[rlength s := b], rlength := Suc (rlength s)\<rparr>) y"
  have l: "rlength (st y) < length (iobuf (st y))" "rlength (st y) < bufferSize (dp e)" using Cons.prems(2,3) by simp_all
  have "out_loop (length (b # bs) + m) e y = out_loop (length bs + m) e ?y"
    using out_loop_byte [OF c l] by simp
  also have "\<dots> = out_loop m e (upd (\<lambda>s. s\<lparr>codeIndex := codeIndex s + length bs,
            iobuf := take (rlength s) (iobuf s) @ bs @ drop (rlength s + length bs) (iobuf s),
            rlength := rlength s + length bs\<rparr>) ?y)"
  proof (rule Cons.IH)
    show "\<forall>j<length bs. code_at (code (st ?y)) (Suc (codeIndex (st ?y) + j)) = DChr (bs ! j)"
      using Cons.prems(1) by (auto dest: spec [of _ "Suc _"])
  qed (use Cons.prems in auto)
  also have "\<dots> = out_loop m e (upd (\<lambda>s. s\<lparr>codeIndex := codeIndex s + length (b # bs),
            iobuf := take (rlength s) (iobuf s) @ (b # bs) @ drop (rlength s + length (b # bs)) (iobuf s),
            rlength := rlength s + length (b # bs)\<rparr>) y)"
    using l by (simp add: upd_def upd_conv_take_nth_drop add_ac)
  finally show ?case .
qed

text \<open>
  C27: an \<open>OUT\<close> command whose format is a string of ordinary
  bytes that, with the output terminator, fits the buffer: before writing,
  the engine renders exactly these bytes followed by the terminator into the
  I/O buffer, requests the bus through \<open>busLockRequest\<close> and
  starts the watchdog with the lock timeout.
\<close>

theorem nextIo_out_literals:
  assumes "cur (st y) = DOut"
      and "\<forall>j<length bs. code_at (code (st y)) (Suc (codeIndex (st y) + j)) = DChr (bs ! j)"
      and "code_at (code (st y)) (Suc (codeIndex (st y) + length bs)) = DNul"
      and "length (iobuf (st y)) = bufferSize (dp e)" "length bs + length (out_terminator (dp e)) < bufferSize (dp e)"
      and "\<not> have_bus e y" "lock_timeout (dp e) \<noteq> 0" "busLockRequest (sid e) (lq y) = Some q" "length bs < n"
  shows "\<exists>y'. nextIo (Suc n) e y = ok (True, y') \<and> rlength (st y') = length bs + length (out_terminator (dp e))
           \<and> take (rlength (st y')) (iobuf (st y')) = bs @ out_terminator (dp e) \<and> lq y' = q
           \<and> armed (st y') = Some (lock_timeout (dp e), WdLockTimeout)"
proof -
  obtain m where n: "n = length bs + Suc m" using assms(9) by (metis add_Suc_right less_imp_Suc_add)
  let ?y1 = "upd (\<lambda>s. s\<lparr>rlength := 0, processed := 0\<rparr>) (upd (\<lambda>s. s\<lparr>rstatus := None, activeCmd := codeIndex s\<rparr>) y)"
  let ?y2 = "upd (\<lambda>s. s\<lparr>codeIndex := codeIndex s + length bs,
            iobuf := take (rlength s) (iobuf s) @ bs @ drop (rlength s + length bs) (iobuf s),
            rlength := rlength s + length bs\<rparr>) ?y1"
  have "nextIo (Suc n) e y = out_loop n e ?y1" using assms(1) by (simp add: Let_def cur_def)
  also have "\<dots> = out_loop (Suc m) e ?y2"
    unfolding n by (rule out_loop_literals) (use assms(2,4,5) in simp_all)
  finally have r: "nextIo (Suc n) e y = out_loop (Suc m) e ?y2" .
  have "\<exists>y'. out_loop (Suc m) e ?y2 = ok (True, y')"
    using assms(3-8) by (simp add: Let_def cur_def have_bus_def bus_lock_def ok_def mem_write_def)
  then obtain y' where r2: "out_loop (Suc m) e ?y2 = ok (True, y')" ..
  have "rlength (st y') = length bs + length (out_terminator (dp e))
        \<and> take (rlength (st y')) (iobuf (st y')) = bs @ out_terminator (dp e) \<and> lq y' = q
        \<and> armed (st y') = Some (lock_timeout (dp e), WdLockTimeout)"
    using r2 assms(3-8)
    by (auto simp: Let_def cur_def have_bus_def bus_lock_def ok_def mem_write_def wd_start_def armed_def)
  then show ?thesis using r r2 by auto
qed

end
