(* ===== verification/Spec2Isabelle.thy ===== *)
theory Spec2Isabelle
  imports Core LockQueue Converters DevStream BufferEdit DevEngine
begin

text \<open>
  \<^bold>\<open>StreamDevice: a verification development.\<close>
  StreamDevice is EPICS device support for byte-stream devices. A record
  names a protocol; the protocol interpreter \<open>StreamCore\<close> runs its commands
  (\<open>out\<close>, \<open>in\<close>, \<open>wait\<close>, \<open>event\<close>, \<open>exec\<close>, exception handlers), formats
  values into an output line and parses replies out of an input buffer
  \<open>StreamBuffer\<close>, and talks to a bus (asyn, or the vxWorks CI488 driver)
  through lock, write, read and timer requests whose answers arrive as
  callbacks. The older EPICS 3.13 device support \<open>devStream.c\<close> has its own
  reception, lock queue and byte converters.

  \<^bold>\<open>Theories and the code they model.\<close>
  \<^item> \<open>Prelude\<close>: bytes as \<open>8 word\<close>, zero-padded reads \<open>byte_at\<close> (a C
    string read past its end reads NUL), control characters, occurrences of
    a needle in a byte string; the lemmas the components share.
  \<^item> \<open>Buffer\<close>: \<open>StreamBuffer.cc\<close> \<open>grow\<close>, \<open>check\<close>, \<open>append\<close> and \<open>find\<close>
    (\<open>sb_grow\<close>, \<open>sb_check\<close>, \<open>sb_append\<close>, \<open>buf_find\<close>) on a record \<open>sbuf\<close>
    holding the storage as a list and \<open>offs\<close>, \<open>len\<close>, \<open>cap\<close> as \<open>int\<close>;
    the invariant \<open>sb_inv\<close> (bounds and the zero fill behind the content)
    and the abstraction \<open>contents\<close>. Errors (the 10000-byte limit, reads out
    of bounds) are \<open>Inl\<close> values of \<open>sb_error\<close>.
  \<^item> \<open>BufferEdit\<close>: \<open>StreamBuffer::init\<close> and \<open>StreamBuffer::replace\<close>
    (\<open>sb_init\<close>, \<open>replace_range\<close>, \<open>sb_replace\<close>, \<open>memmove\<close> as \<open>mem_move\<close>).
  \<^item> \<open>Core\<close>: \<open>StreamCore.cc\<close>: the session record \<open>core\<close>, one step
    function per handler (\<open>evalCommand_step\<close>, \<open>readCallback_step\<close>,
    \<open>finishProtocol_step\<close>, the lock, write, timer and event callbacks),
    output formatting and input matching, and \<open>core_run\<close>, which applies
    the bus's callbacks in their arrival order. The format converters and
    the record bridge are parameters in \<open>env\<close>.
  \<^item> \<open>LockQueue\<close>: the per-channel lock queue of \<open>devStream.c\<close>
    (\<open>busLockRequest\<close>, \<open>busUnlock\<close>, \<open>lockTimeout_cb\<close>) on an explicit heap of
    \<open>lockNext\<close> links; the loops are \<open>partial_function (option)\<close>, since the
    links may form a cycle.
  \<^item> \<open>Converters\<close>: the \<open>%b\<close>, \<open>%{\<close>, \<open>%r\<close> and \<open>%D\<close> converters and the
    separators of \<open>devStreamPrintf\<close>/\<open>devStreamScanf\<close>, with \<open>long\<close> as
    \<open>32 word\<close> (vxWorks), wrap-around and truncating division as in C, and
    undefined shifts and buffer underruns as the error \<open>Undefined\<close>.
  \<^item> \<open>DevStream\<close>: \<open>devStreamReceive\<close> (copy of a chunk into the I/O buffer,
    NUL termination, terminator search) on the record \<open>rx\<close>; writes past the
    allocation are \<open>Inl Undefined\<close>.
  \<^item> \<open>DevEngine\<close>: the protocol engine of \<open>devStream.c\<close> (\<open>startIo\<close>,
    \<open>nextIo\<close>, \<open>process\<close>, \<open>callback\<close>, \<open>devStreamRead\<close>/\<open>Write\<close>, the bus
    and watchdog handlers) on the record \<open>dstream\<close>, which extends \<open>rx\<close> so
    that \<open>devStreamReceive\<close> runs on it, composed with the lock queue
    (\<open>dsys\<close>); \<open>dev_run\<close> applies record processing, input, handler calls,
    watchdog expiries and callbacks in their arrival order.
  \<^item> This theory: concrete sessions and queues, the spec's scenarios
    evaluated on the model (demonstrations of the definitions on fixed
    inputs), and the witnesses that apply each theorem at a concrete input.

  \<^bold>\<open>What is shown.\<close>
  Pending bus requests are never issued twice over any run of callbacks
  (\<open>core_run_pending_ok\<close>); where a reply ends and how much input is kept
  (terminator, \<open>maxInput\<close>); \<open>append\<close>/\<open>grow\<close>/\<open>replace\<close> refine list
  append and splicing, and \<open>grow\<close>'s capacity bounds; \<open>busLockRequest\<close>
  returns on a NULL-terminated queue and inserts by priority, first come
  first served among equals, keeping an ordered queue ordered;
  \<open>busUnlock\<close> hands the bus to the next live waiter, and over any run of
  requests, unlocks and timeouts one stream at a time owns the bus; the
  \<open>%b\<close> print/scan round trip, the big endian \<open>%D\<close> value, its errors and
  its print/scan round trip; reception cuts the input at the first
  terminator; the 3.13 engine renders an \<open>OUT\<close> command into its buffer and
  queues for the bus. Several theorems pin down defects (the findings of the
  manifest): \<open>append\<close> with an over-long negative size, the NUL written one
  byte past the reception buffer, \<open>replace\<close> at the buffer start not
  shortening the content, \<open>init(NULL)\<close> leaving the buffer unterminated,
  the blank-led separator consuming a byte too many, a lock timeout ending
  in an unlock, a refused write stalling the session, \<open>%#D\<close> storing its
  first byte at \<open>buffer[-1]\<close>, and the 3.13 engine writing an \<open>OUT\<close> byte
  past its buffer, ignoring the timeout of \<open>EVENT\<close>, and continuing a
  protocol after an extra-input alarm. Output past the end of the I/O buffer
  in \<open>%{\<close> and separators is \<open>Undefined\<close> in the model, as the code writes
  before it checks.

  \<^bold>\<open>Fuel and bounds.\<close> The synchronous recursion of \<open>StreamCore\<close> carries
  fuel, and so does the engine of \<open>devStream.c\<close>; \<open>None\<close> means it ran out. The scenarios use fuel 20: each callback
  runs at most a few commands of the short protocols they use, and every
  scenario theorem states the \<open>Some\<close> result, so the fuel is shown to
  suffice. The lock queue loops return \<open>None\<close> on a cyclic queue, and
  \<open>busUnlock\<close> is proved to return on a NULL-terminated queue.

  \<^bold>\<open>Not modelled.\<close> The asyn and CI488 bus drivers (\<open>AsynDriverInterface\<close>,
  \<open>streamCI488.c\<close>: I/O on the operating system), the protocol file parser,
  the C-library conversions (\<open>%d\<close>, \<open>%f\<close>, \<open>%s\<close> through
  \<open>sprintf\<close>/\<open>sscanf\<close>), the record-type specific code of the EPICS bridge,
  \<open>StreamBuffer::printf\<close>, \<open>expand\<close> and \<open>dump\<close> (formatting for debug output);
  in \<open>devStream.c\<close> the initialisation (\<open>devStreamInit\<close>,
  \<open>devStreamInitRecord\<close>: symbol table, protocol files, bus registration),
  \<open>devStreamGetIointInfo\<close>, and the \<open>sscanf\<close>/\<open>sprintf\<close> dispatch of
  \<open>devStreamScanf\<close>/\<open>devStreamPrintf\<close>, which the engine reaches through
  the record's \<open>readData\<close>/\<open>writeData\<close>, parameters of its configuration.
  The engine keeps one pending-callback flag per stream: two requests before
  the callback task runs are one callback.
\<close>

section \<open>Fixtures: device sessions as the spec's scenarios describe them\<close>

text \<open>
  Stand-ins for the \<open>%d\<close> converter of \<open>StreamFormatConverter\<close> (which is
  outside the model): decimal digits of a non-negative number, and the
  longest run of leading digits of the input.
\<close>

fun dec_digits :: "nat \<Rightarrow> byte list" where
  "dec_digits n = (if n < 10 then [of_nat (48 + n)] else dec_digits (n div 10) @ [of_nat (48 + n mod 10)])"

fun scan_digits :: "byte list \<Rightarrow> nat \<times> nat" where
  "scan_digits [] = (0, 0)"
| "scan_digits (c # cs) =
     (if 48 \<le> c \<and> c \<le> 57 then (let (v, k) = scan_digits cs in ((unat c - 48) * 10 ^ k + v, Suc k))
      else (0, 0))"

definition demo_env :: "protocol \<Rightarrow> env" where
  "demo_env p = \<lparr>proto = p,
     conv_print = (\<lambda>f v. case v of LongVal i \<Rightarrow> if 0 \<le> i then Some (dec_digits (nat i)) else None | _ \<Rightarrow> None),
     conv_scan = (\<lambda>f bs. let (v, k) = scan_digits bs in if k = 0 then None else Some (LongVal (int v), k)),
     pseudo_print = (\<lambda>f bs. None), pseudo_scan = (\<lambda>f bs n. None), bus_accepts = (\<lambda>r. True),
     bus_attached = True, bus_async = True, field_value = (\<lambda>n t. None),
     field_elems = (\<lambda>n. 1), field_is_char = (\<lambda>n. False), field_is_time = (\<lambda>n. False),
     field_put = (\<lambda>n t vs. True), record_accepts = (\<lambda>v. True), execute_ok = (\<lambda>bs. True)\<rparr>"

definition fmt_d :: stream_format where
  "fmt_d = \<lparr>conv = CHR ''d'', ftype = long_format, fflags = {}, prec = -1, width = 0, info = []\<rparr>"

definition bytes :: "string \<Rightarrow> byte list" where
  "bytes cs = map of_char cs"

definition lits :: "string \<Rightarrow> token list" where
  "lits cs = map Lit (bytes cs)"

definition crlf :: "byte list" where
  "crlf = [13, 10]"

text \<open>The protocol defaults of \<open>StreamProtocol\<close> with \<open>Terminator = CR LF\<close>.\<close>

definition base_proto :: protocol where
  "base_proto = \<lparr>lockTimeout = 5000, readTimeout = 100, replyTimeout = 1000, writeTimeout = 100,
     pollPeriod = 1000, maxInput = 0, inTerminator = crlf, outTerminator = crlf, separator = [],
     commands = [], onInit = [], onWriteTimeout = [], onReplyTimeout = [], onReadTimeout = [],
     onMismatch = []\<rparr>"

text \<open>Scenario 1: \<open>out "HELLO"; in "WORLD";\<close>.\<close>

definition echo_proto :: protocol where
  "echo_proto = base_proto\<lparr>commands := [CmdOut (lits ''HELLO''), CmdIn (lits ''WORLD''), CmdEnd]\<rparr>"

definition echo_events :: "event list" where
  "echo_events = [Start StartNormal, LockCb ioSuccess, WriteCb ioSuccess,
                  ReadCb ioSuccess (bytes ''WORLD'' @ crlf)]"

text \<open>Scenario 2: a silent device, then the \<open>@replytimeout\<close> handler that asks again.\<close>

definition reply_proto :: protocol where
  "reply_proto = base_proto\<lparr>replyTimeout := 100,
     commands := [CmdOut (lits ''GET''), CmdIn (lits ''V='' @ [Format fmt_d]), CmdEnd],
     onReplyTimeout := [CmdOut (lits ''?''), CmdIn (lits ''V='' @ [Format fmt_d]), CmdEnd]\<rparr>"

definition reply_events :: "event list" where
  "reply_events = [Start StartNormal, LockCb ioSuccess, WriteCb ioSuccess, ReadCb ioNoReply [],
                   WriteCb ioSuccess, ReadCb ioSuccess (bytes ''V=42'' @ crlf)]"

text \<open>Scenario 4: the reply arrives before the write completes.\<close>

definition early_proto :: protocol where
  "early_proto = base_proto\<lparr>commands := [CmdOut (lits ''X''), CmdIn (lits ''READY''), CmdEnd]\<rparr>"

definition early_events :: "event list" where
  "early_events = [Start StartNormal, LockCb ioSuccess, ReadCb ioSuccess (bytes ''READY'' @ crlf),
                   WriteCb ioSuccess]"

text \<open>Scenario 6: three values with separator \<open>", "\<close>, as three formats and as one array.\<close>

definition sep_proto :: protocol where
  "sep_proto = base_proto\<lparr>separator := bytes '', '',
     commands := [CmdOut [Format fmt_d, Format fmt_d, Format fmt_d], CmdEnd]\<rparr>"

definition arr_proto :: protocol where
  "arr_proto = base_proto\<lparr>separator := bytes '', '', commands := [CmdOut [Format fmt_d], CmdEnd]\<rparr>"

definition start_events :: "event list" where
  "start_events = [Start StartNormal, LockCb ioSuccess]"

text \<open>\<open>maxinput = 3\<close> without terminator: the reply is cut after three bytes.\<close>

definition maxin_proto :: protocol where
  "maxin_proto = base_proto\<lparr>inTerminator := [], maxInput := 3,
     commands := [CmdOut (lits ''R''), CmdIn (lits ''ABC''), CmdEnd]\<rparr>"

definition maxin_events :: "event list" where
  "maxin_events = [Start StartNormal, LockCb ioSuccess, WriteCb ioSuccess, ReadCb ioSuccess (bytes ''ABCDE'')]"

text \<open>A protocol that declares a \<open>@mismatch\<close> handler.\<close>

definition mismatch_proto :: protocol where
  "mismatch_proto = base_proto\<lparr>onMismatch := [CmdOut (lits ''?''), CmdEnd]\<rparr>"

text \<open>A bus that refuses every request.\<close>

definition refusing_env :: "protocol \<Rightarrow> env" where
  "refusing_env p = (demo_env p)\<lparr>bus_accepts := (\<lambda>r. False)\<rparr>"

text \<open>A session that owns the bus and is about to run \<open>out "X";\<close>.\<close>

definition owner_state :: core where
  "owner_state = (core_init False [])\<lparr>flags := {BusOwner}, body := [CmdOut (lits ''X''), CmdEnd]\<rparr>"

text \<open>A buffer holding the one byte \<open>B\<close> behind one consumed byte, capacity 4.\<close>

definition demo_buf :: sbuf where
  "demo_buf = \<lparr>buffer = [65, 66, 0, 0], offs = 1, len = 1, cap = 4\<rparr>"

text \<open>
  A channel with an idle lock queue; streams 2 and 3 have callback
  priorities 50 and 100, all others 0 (scenario 5 of the spec).
\<close>

definition q_idle :: lockq where
  "q_idle = \<lparr>qhead = None, lockNext = (\<lambda>_. None), lockCancelled = (\<lambda>_. False), haveBus = (\<lambda>_. False),
             prio = (\<lambda>_. 0)(2 := 50, 3 := 100), cbreq = []\<rparr>"

text \<open>Stream 1 holds the bus, stream 2 waits behind it.\<close>

definition q_two :: lockq where
  "q_two = q_idle\<lparr>qhead := Some 1, lockNext := (\<lambda>_. None)(1 := Some 2), haveBus := (\<lambda>_. False)(1 := True)\<rparr>"

text \<open>Device-support formats \<open>%b\<close> and \<open>%6b\<close> with zero fill (\<open>%06b\<close>).\<close>

definition dfmt_b :: dformat where
  "dfmt_b = \<lparr>dconv = CHR ''b'', dflags = {}, dwidth = 0, dprec = -1\<rparr>"

definition dfmt_06b :: dformat where
  "dfmt_06b = dfmt_b\<lparr>dflags := {FZero}, dwidth := 6\<rparr>"

text \<open>Packed BCD formats \<open>%D\<close> and \<open>%4D\<close> (scenario 3 of the spec).\<close>

definition dfmt_D :: dformat where
  "dfmt_D = \<lparr>dconv = CHR ''D'', dflags = {}, dwidth = 0, dprec = -1\<rparr>"

definition dfmt_4D :: dformat where
  "dfmt_4D = dfmt_D\<lparr>dwidth := 4\<rparr>"

definition dfmt_altD :: dformat where
  "dfmt_altD = dfmt_D\<lparr>dflags := {FAlt}\<rparr>"

text \<open>A device-support stream with an empty 8-byte I/O buffer waiting for input.\<close>

definition rx0 :: rx where
  "rx0 = \<lparr>iobuf = replicate 8 0, rlength = 0, rstatus = None, acceptInput = True, wd_cancelled = False, cb_requested = False\<rparr>"

text \<open>
  A buffer of capacity 8 whose content \<open>AAA\<close> sits behind four consumed
  bytes \<open>B\<close>, and inline storage holding stale bytes 7.
\<close>

definition edit_buf :: sbuf where
  "edit_buf = \<lparr>buffer = [66, 66, 66, 66, 65, 65, 65, 0], offs = 4, len = 3, cap = 8\<rparr>"

definition loc7 :: "byte list" where
  "loc7 = replicate 64 7"

text \<open>
  A stream of the 3.13 device support: an 8-byte I/O buffer, CR LF
  terminators, a passive record whose bus interface has \<open>startProtocol\<close>
  and \<open>stopProtocol\<close>, a bus that writes everything at once, and an empty
  lock queue.
\<close>

definition dev_env :: denv where
  "dev_env = \<lparr>dp = \<lparr>bufferSize = 8, out_terminator = [13, 10], in_terminator = [13, 10], lock_timeout = 1000,
              reply_timeout = 500, ignoreExtra = False\<rparr>,
     sid = 0, scan_io = False, has_startProtocol = True, has_stopProtocol = True, has_startInput = False,
     has_stopInput = False, write_part = (\<lambda>bs. Some (length bs)), readData = None, writeData = None,
     scan_skip = (\<lambda>f b p. Inl None)\<rparr>"

definition dev_sys0 :: "dcode list \<Rightarrow> dsys" where
  "dev_sys0 c = \<lparr>lq = \<lparr>qhead = None, lockNext = (\<lambda>x. None), lockCancelled = (\<lambda>x. False), haveBus = (\<lambda>x. False),
                     prio = (\<lambda>x. 0), cbreq = []\<rparr>,
              st = \<lparr>iobuf = replicate 8 0, rlength = 0, rstatus = None, acceptInput = False, wd_cancelled = True,
                    cb_requested = False, code = c, codeIndex = 0, activeCmd = 0, processed = 0,
                    phase = PhaseInit, convert = ConvOK, acceptEvent = False, pact = False, udf = True,
                    wdog = None, deffects = []\<rparr>\<rparr>"

section \<open>Scenarios\<close>

text \<open>
  Scenario 1 of the spec: the session locks the bus, writes
  \<open>HELLO\r\n\<close>, reads with the reply timeout, matches \<open>WORLD\<close>, unlocks and
  reports \<open>Success\<close>; these are all the bus calls it makes, in this order.
\<close>

theorem echo_scenario:
  "map_option (\<lambda>s. (effects s, results s)) (core_run 20 (demo_env echo_proto) (core_init False []) echo_events)
   = Some ([BusSetEos crlf, BusLockRequest 5000, BusWriteRequest (bytes ''HELLO'' @ crlf) 100,
            BusReadRequest 1000 100 0 False, BusUnlock], [Success])"
  by code_simp

text \<open>
  Scenario 4 of the spec: input that arrives while the write is
  still pending is kept as unparsed input, and the \<open>in\<close> command consumes
  it without issuing a read request.
\<close>

theorem early_input_scenario:
  "map_option (\<lambda>s. (effects s, results s)) (core_run 20 (demo_env early_proto) (core_init False []) early_events)
   = Some ([BusSetEos crlf, BusLockRequest 5000, BusWriteRequest (bytes ''X'' @ crlf) 100, BusUnlock], [Success])"
  by code_simp

text \<open>
  Scenario 2 of the spec: after the reply timeout the
  \<open>@replytimeout\<close> handler asks again and parses \<open>V=42\<close>; the value 42
  reaches the record, but the protocol reports \<open>ReplyTimeout\<close>, not the
  \<open>Success\<close> the spec promises the caller.
\<close>

theorem reply_timeout_scenario:
  "map_option (\<lambda>s. (record_in s, results s)) (core_run 20 (demo_env reply_proto) (core_init False []) reply_events)
   = Some ([(None, LongVal 42)], [ReplyTimeout])"
  by code_simp

text \<open>
  Scenario 6 of the spec: with separator \<open>", "\<close>, \<open>out "%d%d%d"\<close>
  with the values 1, 2, 3 writes \<open>123\<close>: each format clears the separator
  flag, so the separator only goes between the elements of one array value,
  as \<open>out "%d"\<close> with the array [1, 2, 3] shows (\<open>1, 2, 3\<close>).
\<close>

theorem separator_scenario:
  "map_option effects (core_run 20 (demo_env sep_proto) (core_init False [[LongVal 1], [LongVal 2], [LongVal 3]]) start_events)
   = Some [BusSetEos crlf, BusLockRequest 5000, BusWriteRequest (bytes ''123'' @ crlf) 100]
   \<and> map_option effects (core_run 20 (demo_env arr_proto) (core_init False [[LongVal 1, LongVal 2, LongVal 3]]) start_events)
   = Some [BusSetEos crlf, BusLockRequest 5000, BusWriteRequest (bytes ''1, 2, 3'' @ crlf) 100]"
  by code_simp

text \<open>
  With \<open>maxinput = 3\<close> and no terminator, the reply \<open>ABCDE\<close> is cut
  after \<open>ABC\<close>, which matches; the two bytes beyond the cap are not
  discarded but stay in the input buffer as unparsed input for the next
  \<open>in\<close>.
\<close>

theorem maxinput_scenario:
  "map_option (\<lambda>s. (results s, inputBuffer s, unparsedInput s))
     (core_run 20 (demo_env maxin_proto) (core_init False []) maxin_events)
   = Some ([Success], bytes ''DE'', True)"
  by code_simp

text \<open>
  Scenario 5 of the spec: streams of priority 50 and 100 request the
  lock while stream 1 holds it; whichever asked first, the unlock hands the
  bus to the priority-100 stream, and its unlock then to the other.
\<close>

theorem lock_priority_scenario:
  "map_option cbreq (lq_run q_idle [LockReq 1, LockReq 2, LockReq 3, Unlock 1, Unlock 3]) = Some [1, 3, 2] \<and>
   map_option cbreq (lq_run q_idle [LockReq 1, LockReq 3, LockReq 2, Unlock 1, Unlock 3]) = Some [1, 3, 2]"
  by code_simp

text \<open>
  A cancelled waiter loses every waiter behind it: stream 3 times out
  while 2 and 4 wait behind it; the next lock request's sweep cuts the queue
  after 3, so after 1 and then 5 unlock the queue is empty and streams 2 and
  4 never get a callback.
\<close>

theorem lock_sweep_loses_waiters:
  "map_option (\<lambda>q. (cbreq q, qhead q))
     (lq_run q_idle [LockReq 1, LockReq 2, LockReq 3, LockReq 4, LockTmo 3, LockReq 5, Unlock 1, Unlock 5])
   = Some ([1, 3, 5], None)"
  by code_simp

text \<open>
  \<open>replace\<close> that inserts into a buffer whose content sits near its
  end moves the content to the start but clears only up to the old length:
  the byte behind the new content is a stale content byte, so the buffer is
  no longer NUL terminated and the zero fill is lost.
\<close>

theorem replace_tostart_unterminated:
  "\<exists>b'. sb_replace 3 0 [88, 89] 2 edit_buf = Inr b' \<and> contents b' = [65, 65, 65, 88, 89] \<and> buffer b' ! 5 = 65 \<and> \<not> sb_inv b'"
proof -
  have "sb_replace 3 0 [88, 89] 2 edit_buf = Inr \<lparr>buffer = [65, 65, 65, 88, 89, 65, 65, 0], offs = 0, len = 5, cap = 8\<rparr>"
    by (simp add: sb_replace_def replace_range_def edit_buf_def mem_move_def mem_copy_def upt_rec)
  then show ?thesis by (auto simp: contents_def sb_inv_def intro!: exI [of _ 5])
qed

text \<open>
  The 3.13 engine writes \<open>out "AB"\<close>: the record starts the protocol,
  the output waits for the bus lock, the lock queue grants it and requests
  the callback, which writes \<open>AB\<close> CR LF; when the bus reports the write
  finished the protocol ends, the bus is unlocked and the record completes.
\<close>

theorem write_scenario:
  "map_option (map_sum id (\<lambda>y. (deffects (st y), haveBus (lq y) 0, pact (st y))))
     (dev_run 20 dev_env (dev_sys0 [DOut, DChr 65, DChr 66, DNul]) [EvWrite, EvCallback, EvWriteFinished, EvCallback])
   = Some (Inr ([StartProtocol, WritePart [65, 66, 13, 10], StopProtocol, RecordProcess None], False, False))"
  by code_simp

text \<open>
  A reply with unparsed bytes left (\<open>in "A"; out "B"\<close> answered by
  \<open>AX\<close>) completes the record with \<open>CALC_ALARM\<close>, but \<open>callback\<close> has no
  \<open>return\<close> after that \<open>process\<close>: the protocol goes on, locks the bus and
  writes \<open>B\<close> CR LF for a record that is no longer active, and keeps the bus.
\<close>

theorem extra_input_scenario:
  "map_option (map_sum id (\<lambda>y. (deffects (st y), haveBus (lq y) 0, pact (st y))))
     (dev_run 20 dev_env (dev_sys0 [DIn, DChr 65, DOut, DChr 66, DNul])
        [EvRead, EvReceive [65, 88, 13, 10] True, EvCallback, EvCallback])
   = Some (Inr ([StartProtocol, StopProtocol, RecordProcess (Some CalcAlarm), WritePart [66, 13, 10]], True, False))"
  by code_simp

section \<open>Witnesses\<close>

theorem core_run_pending_ok_witness:
  "pending_ok (core_init False []) \<and>
   core_run 20 (demo_env echo_proto) (core_init False []) echo_events
     = Some (the (core_run 20 (demo_env echo_proto) (core_init False []) echo_events)) \<and>
   pending_ok (the (core_run 20 (demo_env echo_proto) (core_init False []) echo_events))"
proof -
  have init: "pending_ok (core_init False [])"
    by (simp add: pending_ok_def pend_def core_init_def)
  have run: "core_run 20 (demo_env echo_proto) (core_init False []) echo_events
     = Some (the (core_run 20 (demo_env echo_proto) (core_init False []) echo_events))"
    by code_simp
  show ?thesis using Core.core_run_pending_ok [OF init run] init run by simp
qed

theorem finishProtocol_in_handler_witness:
  "results (the (finishProtocol 1 (demo_env reply_proto) Success
                  ((core_init False [])\<lparr>runningHandler := ReplyTimeout\<rparr>))) = [ReplyTimeout]"
  using Core.finishProtocol_in_handler [of "(core_init False [])\<lparr>runningHandler := ReplyTimeout\<rparr>" 0
                                          "demo_env reply_proto" Success]
  by (simp add: core_init_def finish_release_def)

theorem finishProtocol_ScanError_unhandled_witness:
  "onMismatch mismatch_proto \<noteq> [] \<and>
   results (the (finishProtocol 1 (demo_env mismatch_proto) ScanError (core_init False []))) = [ScanError]"
  using Core.finishProtocol_ScanError_unhandled [of "core_init False []" 0 "demo_env mismatch_proto"]
  by (simp add: core_init_def finish_release_def mismatch_proto_def)

theorem lockCallback_timeout_unlocks_witness:
  "map_option (\<lambda>s'. (effects s', results s'))
     (lockCallback 1 (demo_env echo_proto) ioTimeout ((core_init False [])\<lparr>flags := {LockPending}\<rparr>))
   = Some ([BusUnlock], [LockTimeout])"
  using Core.lockCallback_timeout_unlocks [of "(core_init False [])\<lparr>flags := {LockPending}\<rparr>" ioTimeout 0
                                             "demo_env echo_proto"]
  by (simp add: core_init_def pend_def BusPending_def)

theorem evalOut_refused_write_stalls_witness:
  "\<exists>s'. evalCommand 1 (refusing_env base_proto) owner_state = Some (False, s') \<and> WritePending \<in> flags s'
        \<and> results s' = [] \<and> (\<forall>m. evalCommand (Suc m) (refusing_env base_proto) s' = Some (False, s'))"
  using Core.evalOut_refused_write_stalls [of owner_state "bytes ''X''" "refusing_env base_proto" 0]
  by (simp add: owner_state_def core_init_def BusPending_def cmd_at_def lits_def refusing_env_def)

theorem input_end_terminator_witness:
  "input_end base_proto ioSuccess (bytes ''WORLD'' @ crlf) = Inr (5, 2)"
proof -
  have "input_end base_proto ioSuccess (bytes ''WORLD'' @ crlf) = Inr (length (bytes ''WORLD''), length crlf)"
    using terminator_unique_first
    by (intro Core.input_end_terminator) (simp_all add: base_proto_def crlf_def bytes_def)
  then show ?thesis by (simp add: bytes_def crlf_def)
qed

theorem input_end_maxInput_witness:
  "input_end maxin_proto ioSuccess (bytes ''AB'') = Inl 1 \<and>
   input_end maxin_proto ioSuccess (bytes ''ABCDE'') = Inr (3, 0)"
  using Core.input_end_maxInput [of maxin_proto ioSuccess "bytes ''AB''"]
        Core.input_end_maxInput [of maxin_proto ioSuccess "bytes ''ABCDE''"]
  by (simp add: maxin_proto_def base_proto_def bytes_def)

theorem matchSeparator_blank_skips_extra_witness:
  "fst (matchSeparator (base_proto\<lparr>separator := bytes '' ,''\<rparr>)
          ((core_init False [])\<lparr>flags := {Separator}, inputLine := bytes ''  ,5''\<rparr>)) = False"
  using Core.matchSeparator_blank_skips_extra [of "base_proto\<lparr>separator := bytes '' ,''\<rparr>" "bytes '',''"
          "(core_init False [])\<lparr>flags := {Separator}, inputLine := bytes ''  ,5''\<rparr>" "[]" "bytes ''  ''"
          "of_char CHR '',''" "bytes ''5''"]
  by (simp add: core_init_def bytes_def isspace_def byte_at_def code_defs)


lemma demo_buf_inv: "sb_inv demo_buf"
  by (auto simp: sb_inv_def demo_buf_def less_Suc_eq nth_Cons')

theorem sb_append_contents_witness:
  "\<exists>b'. sb_append [67, 68, 69] 3 demo_buf = Inr b' \<and> sb_inv b' \<and> contents b' = [66, 67, 68, 69]"
proof -
  have "contents demo_buf = [66]" by (simp add: contents_def demo_buf_def)
  then show ?thesis
    using Buffer.sb_append_contents [OF demo_buf_inv, of "[67, 68, 69]"] by (simp add: demo_buf_def)
qed

theorem sb_append_truncate_witness:
  "\<exists>b'. sb_append [] (-1) demo_buf = Inr b' \<and> sb_inv b' \<and> contents b' = []"
  using Buffer.sb_append_truncate [OF demo_buf_inv, of 1 "[]"] by (simp add: demo_buf_def)

theorem sb_append_overtruncate_witness:
  "\<exists>b'. sb_append [] (-2) demo_buf = Inr b' \<and> len b' < 0 \<and> \<not> sb_inv b'"
  using Buffer.sb_append_overtruncate [OF demo_buf_inv, of 2 "[]"] by (simp add: demo_buf_def)

theorem sb_grow_capacity_witness:
  "\<exists>b' j. sb_grow 200 demo_buf = Inr b' \<and> cap b' = 128 * 2 ^ j \<and> 200 < cap b' \<and> (j = 0 \<or> cap b' \<le> 400)"
  using Buffer.sb_grow_capacity [OF demo_buf_inv, of 200] by (simp add: demo_buf_def)


lemma q_two_list: "qlist (lockNext q_two) (qhead q_two) [1, 2]"
  by (simp add: q_two_def q_idle_def)

theorem busLockRequest_queue_witness:
  "\<exists>q'. busLockRequest 3 q_two = Some q' \<and> qlist (lockNext q') (qhead q') [1, 3, 2]"
  using LockQueue.busLockRequest_queue [OF q_two_list, of 3] by (auto simp: q_two_def q_idle_def)

theorem busUnlock_next_witness:
  "\<exists>q'. busUnlock 1 q_two = Some q' \<and> qlist (lockNext q') (qhead q') [2] \<and> cbreq q' = [2]"
  using LockQueue.busUnlock_next [OF q_two_list] by (auto simp: q_two_def q_idle_def)

theorem busLockRequest_sorted_witness:
  "\<exists>q'. busLockRequest 3 q_two = Some q' \<and> qlist (lockNext q') (qhead q') [1, 3, 2]
        \<and> sorted_wrt (\<lambda>a b. prio q_two b \<le> prio q_two a) [3, 2]"
proof -
  have "3 \<notin> set [1, 2 :: nat]" "\<forall>x \<in> set [2]. \<not> lockCancelled q_two x"
       "sorted_wrt (\<lambda>a b. prio q_two b \<le> prio q_two a) [2]"
    by (simp_all add: q_two_def q_idle_def)
  from LockQueue.busLockRequest_sorted [OF q_two_list this]
  obtain q' as bs where r: "busLockRequest 3 q_two = Some q'" "qlist (lockNext q') (qhead q') (1 # as @ 3 # bs)"
      "as @ bs = [2]" "\<forall>x \<in> set as. prio q_two 3 \<le> prio q_two x"
      "sorted_wrt (\<lambda>a b. prio q_two b \<le> prio q_two a) (as @ 3 # bs)" by blast
  have "as = []" using r(3,4) by (cases as) (auto simp: q_two_def q_idle_def)
  then show ?thesis using r by auto
qed

theorem lq_run_bus_inv_witness:
  "\<exists>q'. lq_run q_idle [LockReq 1, LockReq 2, Unlock 1] = Some q' \<and> bus_inv q' \<and> haveBus q' 2 \<and> \<not> haveBus q' 1"
proof -
  have i: "bus_inv q_idle" by (simp add: bus_inv_def q_idle_def)
  have c: "map_option (\<lambda>q. (haveBus q 1, haveBus q 2)) (lq_run q_idle [LockReq 1, LockReq 2, Unlock 1]) = Some (False, True)"
    by code_simp
  then obtain q' where r: "lq_run q_idle [LockReq 1, LockReq 2, Unlock 1] = Some q'" and h: "haveBus q' 2" "\<not> haveBus q' 1"
    by (cases "lq_run q_idle [LockReq 1, LockReq 2, Unlock 1]") auto
  show ?thesis using LockQueue.lq_run_bus_inv [OF i r] r h by blast
qed

theorem print_scan_b_roundtrip_witness:
  "print_b dfmt_06b 5 100 = Inr [48, 48, 48, 49, 48, 49] \<and> scan_b dfmt_b ([48, 48, 48, 49, 48, 49] @ [13]) = Inr (Some 5, 6)"
proof -
  have "byte_at [13] 0 \<noteq> 48" "byte_at [13] 0 \<noteq> 49" by simp_all
  then obtain out where "print_b dfmt_06b 5 100 = Inr out" "scan_b dfmt_b (out @ [13]) = Inr (Some 5, length out)"
    using Converters.print_scan_b_roundtrip [of dfmt_06b 100 dfmt_b "[13]" 5] by (auto simp: dfmt_06b_def dfmt_b_def)
  moreover have "print_b dfmt_06b 5 100 = Inr [48, 48, 48, 49, 48, 49]" by code_simp
  ultimately show ?thesis by auto
qed

theorem scan_D_be_value_witness:
  "scan_D dfmt_4D ([0x12, 0x34, 0x56, 0x78] @ [13, 10]) = Inr (Some 12345678, 4)"
proof -
  have ok: "\<forall>b\<in>set [0x12, 0x34, 0x56, 0x78]. bcd_ok b" by (simp add: bcd_ok_def)
  have acc: "bcd_acc 0 [0x12, 0x34, 0x56, 0x78] = 12345678" by (simp add: bcd_acc_def bcd_pair_def)
  show ?thesis
    using Converters.scan_D_be_value [of dfmt_4D "[0x12, 0x34, 0x56, 0x78]", OF _ _ _ _ _ ok, of "[13, 10]"] acc
    by (simp add: dfmt_4D_def dfmt_D_def)
qed

theorem scan_D_be_bad_digit_witness:
  "scan_D dfmt_4D ([0x12] @ 0x3A # [0x56, 0x78]) = Inl CalcAlarm"
proof -
  have ok: "\<forall>b\<in>set [0x12]. bcd_ok b" "bcd_acc 0 [0x12] < 2 ^ 31" "\<not> bcd_ok 0x3A"
    by (simp_all add: bcd_ok_def bcd_acc_def bcd_pair_def)
  show ?thesis
    using Converters.scan_D_be_bad_digit [of dfmt_4D "[0x12]", OF _ _ _ ok, of "[0x56, 0x78]"]
    by (simp add: dfmt_4D_def dfmt_D_def)
qed

theorem print_scan_D_roundtrip_witness:
  "\<exists>out. print_D dfmt_D 12345678 100 = Inr (Some 0, out) \<and> length out = 4 \<and> scan_D dfmt_4D (out @ [13]) = Inr (Some 12345678, 4)"
proof -
  have "(12345678 :: long) < 100000000" by simp
  then show ?thesis
    using Converters.print_scan_D_roundtrip [of dfmt_D 100 12345678 dfmt_4D "[13]"] by (auto simp: dfmt_D_def dfmt_4D_def)
qed

theorem print_D_le_shifted_witness:
  "print_D dfmt_altD 12345678 100 = Inr (Some 0x78, [0x56, 0x34, 0x12, 0])"
proof -
  have "(12345678 :: long) < 100000000" by simp
  then have "print_D dfmt_altD 12345678 100
      = Inr (Some (bcd_byte_of (unat (12345678 :: long)) 0), map (bcd_byte_of (unat (12345678 :: long))) [1..<4] @ [0])"
    using Converters.print_D_le_shifted [of dfmt_altD 100 12345678] by (simp add: dfmt_altD_def dfmt_D_def)
  then show ?thesis by (simp add: bcd_byte_of_def upt_conv_Cons)
qed

lemma rx0_wf: "rx_wf 8 rx0" by (simp add: rx_wf_def rx0_def)
theorem rx_fill_overflows_witness:
  "devStreamReceive 8 [13, 10] True [65, 66, 67, 68, 69, 70, 71, 72] False rx0 = Inl Undefined"
  using DevStream.rx_fill_overflows [OF rx0_wf, of "[65, 66, 67, 68, 69, 70, 71, 72]"] by (simp add: rx0_def)
theorem rx_terminator_witness:
  "\<exists>s'. devStreamReceive 8 [13, 10] True [65, 66, 13, 10, 67] False rx0 = Inr s' \<and> rlength s' = 2
     \<and> take 2 (iobuf s') = [65, 66] \<and> rstatus s' = None \<and> \<not> acceptInput s' \<and> cb_requested s'"
proof -
  have e: "ends_at [65, 66, 13, 10, 67] [13, 10] 3" by (simp add: ends_at_def less_Suc_eq)
  have f: "\<forall>j. 0 \<le> j \<and> j < 3 \<longrightarrow> \<not> ends_at [65, 66, 13, 10, 67] [13, 10] j"
    by (auto simp: ends_at_def less_Suc_eq numeral_3_eq_3)
  obtain s' where "devStreamReceive 8 [13, 10] True [65, 66, 13, 10, 67] False rx0 = Inr s'" "rlength s' = 2"
      "take (rlength s') (iobuf s') = [65, 66]" "rstatus s' = None" "\<not> acceptInput s'" "cb_requested s'"
    using DevStream.rx_terminator [OF rx0_wf, where data = "[65, 66, 13, 10, 67]" and tm = "[13, 10]" and k = 3 and endflag = False] e f
    by (auto simp: rx0_def)
  then show ?thesis by auto
qed
theorem rx_accumulates_witness:
  "\<exists>s'. devStreamReceive 8 [13, 10] True [65, 66, 13] False rx0 = Inr s' \<and> rlength s' = 3
     \<and> take 3 (iobuf s') = [65, 66, 13] \<and> acceptInput s' \<and> \<not> cb_requested s'"
proof -
  have f: "\<forall>j. 0 \<le> j \<and> j < 0 + length [65, 66, 13 :: byte] \<longrightarrow> \<not> ends_at [65, 66, 13] [13, 10] j"
    by (auto simp: ends_at_def less_Suc_eq numeral_3_eq_3)
  obtain s' where "devStreamReceive 8 [13, 10] True [65, 66, 13] False rx0 = Inr s'" "rlength s' = 3"
      "take (rlength s') (iobuf s') = [65, 66, 13]" "acceptInput s'" "\<not> cb_requested s'"
    using DevStream.rx_accumulates [OF rx0_wf, where data = "[65, 66, 13]" and tm = "[13, 10]" and endflag = False] f
    by (auto simp: rx0_def numeral_3_eq_3)
  then show ?thesis by auto
qed
theorem rx_receive_wf_witness:
  "\<exists>s'. devStreamReceive 8 [] True [65, 66, 13] True rx0 = Inr s' \<and> rx_wf 8 s'"
proof -
  have "\<exists>s'. devStreamReceive 8 [] True [65, 66, 13] True rx0 = Inr s'"
    by (simp add: devStreamReceive_def rx0_def mem_write_def)
  then obtain s' where r: "devStreamReceive 8 [] True [65, 66, 13] True rx0 = Inr s'" ..
  show ?thesis using DevStream.rx_receive_wf [OF rx0_wf r] r by blast
qed
lemma edit_buf_inv: "sb_inv edit_buf" by (auto simp: sb_inv_def edit_buf_def less_Suc_eq numeral_eq_Suc)
lemma edit_buf_contents: "contents edit_buf = [65, 65, 65]" by (simp add: contents_def edit_buf_def)
theorem sb_replace_splice_witness:
  "\<exists>b'. sb_replace 1 1 [88] 1 edit_buf = Inr b' \<and> sb_bounds b' \<and> contents b' = [65, 88, 65]"
proof -
  have "len edit_buf = 3" by (simp add: edit_buf_def)
  then show ?thesis using BufferEdit.sb_replace_splice [OF edit_buf_inv, of 1 1 1 "[88]"] by (simp add: edit_buf_contents splice_def)
qed
theorem sb_replace_remove_front_witness:
  "\<exists>b'. sb_replace 0 2 [] 0 edit_buf = Inr b' \<and> len b' = 3 \<and> offs b' = 6 \<and> \<not> sb_bounds b'"
  using BufferEdit.sb_replace_remove_front [of 2 edit_buf "[]"] by (simp add: edit_buf_def)
theorem sb_init_contents_witness:
  "\<exists>b. sb_init loc7 (Some [65, 66]) 2 = Inr b \<and> sb_inv b \<and> contents b = [65, 66]"
  using BufferEdit.sb_init_contents [of loc7 2 "[65, 66]"] by (simp add: loc7_def local_size_def)
theorem sb_init_null_unterminated_witness:
  "\<exists>b. sb_init loc7 None 5 = Inr b \<and> len b = 0 \<and> buffer b ! 0 = 7 \<and> \<not> sb_inv b"
  using BufferEdit.sb_init_null_unterminated [of loc7 5] by (simp add: loc7_def local_size_def)
theorem event_timeout_ignored_witness:
  "\<exists>y'. nextIo (Suc 0) dev_env (dev_sys0 [DEvent 100]) = ok (True, y') \<and> armed (st y') = Some (100, WdReplyTimeout)
     \<and> is_event (active (st y')) \<and> dev_step 5 dev_env y' EvTimer = ok (upd wd_cancel y')"
  using DevEngine.event_timeout_ignored [of "dev_sys0 [DEvent 100]" 100 dev_env 0 5]
  by (simp add: cur_def code_at_def dev_sys0_def have_bus_def)
theorem nextIo_out_overflow_witness:
  "nextIo (Suc 9) dev_env (dev_sys0 [DOut, DChr 48, DChr 49, DChr 50, DChr 51, DChr 52, DChr 53, DChr 54, DChr 55, DChr 56])
   = Some (Inl Undefined)"
  using DevEngine.nextIo_out_overflow [of "dev_sys0 [DOut, DChr 48, DChr 49, DChr 50, DChr 51, DChr 52, DChr 53, DChr 54, DChr 55, DChr 56]"
      dev_env "[48, 49, 50, 51, 52, 53, 54, 55, 56]" 9]
  by (simp add: cur_def code_at_def dev_sys0_def dev_env_def less_Suc_eq numeral_eq_Suc)
definition y_extra :: dsys where
  "y_extra = upd (\<lambda>s. s\<lparr>codeIndex := 1, processed := 1, rlength := 2, pact := True\<rparr>)
               (dev_sys0 [DIn, DChr 65, DWait 100])"

theorem in_extra_input_continues_witness:
  "\<exists>y'. in_loop 2 dev_env y_extra = ok y' \<and> RecordProcess (Some CalcAlarm) \<in> set (deffects (st y'))
     \<and> \<not> pact (st y') \<and> armed (st y') = Some (100, WdCallback)"
proof -
  have h: "code_at (code (st y_extra)) (Suc (codeIndex (st y_extra))) = DWait 100"
      "processed (st y_extra) < rlength (st y_extra)" "\<not> ignoreExtra (dp dev_env)"
      "phase (st y_extra) \<noteq> PhaseAsync" "pact (st y_extra)" "\<not> scan_io dev_env" "\<not> have_bus dev_env y_extra"
    by (simp_all add: y_extra_def upd_def code_at_def dev_sys0_def dev_env_def have_bus_def)
  obtain y' where r: "in_loop (Suc (Suc 0)) dev_env y_extra = ok y'"
      "RecordProcess (Some CalcAlarm) \<in> set (deffects (st y'))" "\<not> pact (st y')"
      "armed (st y') = Some (unat (100 :: 16 word), WdCallback)"
    using DevEngine.in_extra_input_continues [OF h, of 0] by blast
  have "in_loop 2 dev_env y_extra = ok y'" using r(1) by (simp only: numeral_2_eq_2)
  moreover have "armed (st y') = Some (100, WdCallback)" using r(4) by simp
  ultimately show ?thesis using r(2,3) by blast
qed

theorem nextIo_out_literals_witness:
  "\<exists>y'. nextIo 4 dev_env (dev_sys0 [DOut, DChr 65, DChr 66, DNul]) = ok (True, y') \<and> rlength (st y') = 4
     \<and> take 4 (iobuf (st y')) = [65, 66, 13, 10] \<and> armed (st y') = Some (1000, WdLockTimeout)"
proof -
  let ?y = "dev_sys0 [DOut, DChr 65, DChr 66, DNul]"
  obtain q where q: "busLockRequest (sid dev_env) (lq ?y) = Some q"
    by (simp add: dev_sys0_def dev_env_def busLockRequest_def)
  have h: "cur (st ?y) = DOut"
      "\<forall>j<length [65, 66 :: byte]. code_at (code (st ?y)) (Suc (codeIndex (st ?y) + j)) = DChr ([65, 66] ! j)"
      "code_at (code (st ?y)) (Suc (codeIndex (st ?y) + length [65, 66 :: byte])) = DNul"
      "length (iobuf (st ?y)) = bufferSize (dp dev_env)"
      "length [65, 66 :: byte] + length (out_terminator (dp dev_env)) < bufferSize (dp dev_env)"
      "\<not> have_bus dev_env ?y" "lock_timeout (dp dev_env) \<noteq> 0" "length [65, 66 :: byte] < 3"
    by (simp_all add: dev_sys0_def dev_env_def cur_def code_at_def have_bus_def less_Suc_eq numeral_2_eq_2)
  obtain y' where r: "nextIo (Suc 3) dev_env ?y = ok (True, y')"
      "rlength (st y') = length [65, 66 :: byte] + length (out_terminator (dp dev_env))"
      "take (rlength (st y')) (iobuf (st y')) = [65, 66] @ out_terminator (dp dev_env)"
      "armed (st y') = Some (lock_timeout (dp dev_env), WdLockTimeout)"
    using DevEngine.nextIo_out_literals [OF h(1-7) q h(8)] by blast
  have s4: "Suc 3 = (4 :: nat)" by simp
  have "nextIo 4 dev_env ?y = ok (True, y')" using r(1) by (simp only: s4)
  moreover have "rlength (st y') = 4" using r(2) by (simp add: dev_env_def)
  moreover have "take 4 (iobuf (st y')) = [65, 66, 13, 10]" using r(2,3) by (simp add: dev_env_def numeral_eq_Suc)
  moreover have "armed (st y') = Some (1000, WdLockTimeout)" using r(4) by (simp add: dev_env_def)
  ultimately show ?thesis by blast
qed
end
